theory Spec2Isabelle
  imports Complex_Main
begin

section \<open>Numbers, vectors and matrices\<close>

text \<open>
  The filter of \<^verbatim>\<open>src/mekf.py\<close> computes on arrays of floating-point numbers. The model
  computes with exact reals and keeps the one special value that decides how the code
  behaves at its corner cases: \<open>NaN\<close>, the result of \<open>0 / 0\<close>. Arrays divide silently
  (no exception is raised), and \<open>NaN\<close> spreads through every later operation. Rounding and
  overflow are not modelled. Every division of the code divides a vector by its own norm
  (or an angle by 2), so a nonzero dividend over zero, an infinity in IEEE arithmetic,
  does not arise from finite inputs; the model gives \<open>NaN\<close> there as well.
\<close>

datatype num = Fin real | NaN

instantiation num :: "{zero,one,plus,minus,uminus,times}"
begin

definition zero_num :: num where "zero_num = Fin 0"

definition one_num :: num where "one_num = Fin 1"

fun plus_num :: "num \<Rightarrow> num \<Rightarrow> num" where
  "plus_num (Fin a) (Fin b) = Fin (a + b)"
| "plus_num _ _ = NaN"

fun minus_num :: "num \<Rightarrow> num \<Rightarrow> num" where
  "minus_num (Fin a) (Fin b) = Fin (a - b)"
| "minus_num _ _ = NaN"

fun uminus_num :: "num \<Rightarrow> num" where
  "uminus_num (Fin a) = Fin (- a)"
| "uminus_num NaN = NaN"

fun times_num :: "num \<Rightarrow> num \<Rightarrow> num" where
  "times_num (Fin a) (Fin b) = Fin (a * b)"
| "times_num _ _ = NaN"

instance ..

end

fun fdiv :: "num \<Rightarrow> num \<Rightarrow> num" where
  "fdiv (Fin a) (Fin b) = (if b = 0 then NaN else Fin (a / b))"
| "fdiv _ _ = NaN"

text \<open>
  Sums and products of numbers obey the laws of a commutative semiring, except that
  \<open>0 * x = 0\<close> fails at \<open>x = NaN\<close>.
\<close>

instance num :: comm_monoid_add
proof
  fix x y z :: num
  show "x + y + z = x + (y + z)"
    by (cases x; cases y; cases z; simp)
  show "x + y = y + x"
    by (cases x; cases y; simp)
  show "0 + x = x"
    unfolding zero_num_def by (cases x; simp)
qed

instance num :: comm_monoid_mult
proof
  fix x y z :: num
  show "x * y * z = x * (y * z)"
    by (cases x; cases y; cases z; simp)
  show "x * y = y * x"
    by (cases x; cases y; simp)
  show "1 * x = x"
    unfolding one_num_def by (cases x; simp)
qed

instance num :: comm_semiring
proof
  fix x y z :: num
  show "(x + y) * z = x * z + y * z"
    by (cases x; cases y; cases z; simp add: ring_distribs)
qed

fun is_fin :: "num \<Rightarrow> bool" where
  "is_fin (Fin a) = True"
| "is_fin NaN = False"

fun the_fin :: "num \<Rightarrow> real" where
  "the_fin (Fin a) = a"
| "the_fin NaN = 0"

text \<open>\<^verbatim>\<open>math.sin\<close>, \<^verbatim>\<open>math.cos\<close> and the square root inside the norm.\<close>

fun fsin :: "num \<Rightarrow> num" where
  "fsin (Fin a) = Fin (sin a)"
| "fsin NaN = NaN"

fun fcos :: "num \<Rightarrow> num" where
  "fcos (Fin a) = Fin (cos a)"
| "fcos NaN = NaN"

fun fsqrt :: "num \<Rightarrow> num" where
  "fsqrt (Fin a) = Fin (sqrt a)"
| "fsqrt NaN = NaN"

type_synonym vec = "num list"
type_synonym mat = "num list list"

text \<open>
  An array of shape \<open>(n,)\<close> is a list of length \<open>n\<close>, one of shape \<open>(n, m)\<close> a list of \<open>n\<close>
  rows of length \<open>m\<close>. The code is called with a quaternion of shape \<open>(4,)\<close>, vectors of
  shape \<open>(3,)\<close> and a covariance of shape \<open>(6, 6)\<close>; on other shapes the array library
  raises or broadcasts, which the list functions below do not follow.
\<close>

definition is_mat :: "nat \<Rightarrow> nat \<Rightarrow> 'a list list \<Rightarrow> bool" where
  "is_mat n m A = (length A = n \<and> list_all (\<lambda>r. length r = m) A)"

definition fin_vec :: "vec \<Rightarrow> bool" where
  "fin_vec v = list_all is_fin v"

definition fin_mat :: "mat \<Rightarrow> bool" where
  "fin_mat A = list_all (list_all is_fin) A"

text \<open>Elementwise arithmetic of arrays of one shape, and of an array with a scalar.\<close>

definition vadd :: "vec \<Rightarrow> vec \<Rightarrow> vec" where
  "vadd u v = map2 (+) u v"

definition vsub :: "vec \<Rightarrow> vec \<Rightarrow> vec" where
  "vsub u v = map2 (-) u v"

definition vneg :: "vec \<Rightarrow> vec" where
  "vneg v = map uminus v"

definition vscale :: "vec \<Rightarrow> num \<Rightarrow> vec" where
  "vscale v c = map (\<lambda>x. x * c) v"

definition vdiv :: "vec \<Rightarrow> num \<Rightarrow> vec" where
  "vdiv v c = map (\<lambda>x. fdiv x c) v"

definition madd :: "mat \<Rightarrow> mat \<Rightarrow> mat" where
  "madd A B = map2 vadd A B"

definition msub :: "mat \<Rightarrow> mat \<Rightarrow> mat" where
  "msub A B = map2 vsub A B"

definition mscale :: "mat \<Rightarrow> num \<Rightarrow> mat" where
  "mscale A c = map (\<lambda>r. vscale r c) A"

text \<open>\<^verbatim>\<open>eye(n)\<close>, \<^verbatim>\<open>zeros((n, m))\<close>, \<^verbatim>\<open>A.transpose()\<close>.\<close>

definition eye :: "nat \<Rightarrow> mat" where
  "eye n = map (\<lambda>i. map (\<lambda>j. if i = j then 1 else 0) [0..<n]) [0..<n]"

definition zeros :: "nat \<Rightarrow> nat \<Rightarrow> mat" where
  "zeros n m = map (\<lambda>i. map (\<lambda>j. 0) [0..<m]) [0..<n]"

definition ncols :: "'a list list \<Rightarrow> nat" where
  "ncols A = (case A of [] \<Rightarrow> 0 | r # _ \<Rightarrow> length r)"

definition transpose_m :: "'a list list \<Rightarrow> 'a list list" where
  "transpose_m A = map (\<lambda>j. map (\<lambda>r. r ! j) A) [0..<ncols A]"

text \<open>
  \<^verbatim>\<open>matmul\<close> (\<^verbatim>\<open>dot\<close> under ulab) of two matrices, and of a matrix with a vector: every
  entry is the sum of the products along a row and a column.
\<close>

definition dot :: "vec \<Rightarrow> vec \<Rightarrow> num" where
  "dot u v = sum_list (map2 (*) u v)"

definition matvec :: "mat \<Rightarrow> vec \<Rightarrow> vec" where
  "matvec A v = map (\<lambda>r. dot r v) A"

definition matmul :: "mat \<Rightarrow> mat \<Rightarrow> mat" where
  "matmul A B = map (\<lambda>r. map (\<lambda>c. dot r c) (transpose_m B)) A"

text \<open>\<^verbatim>\<open>linalg.norm\<close> of a vector: the Euclidean norm.\<close>

definition linalg_norm :: "vec \<Rightarrow> num" where
  "linalg_norm v = fsqrt (sum_list (map (\<lambda>x. x * x) v))"

subsection \<open>Matrix inverse\<close>

text \<open>
  \<^verbatim>\<open>linalg.inv\<close> belongs to the array library. It returns the inverse of a matrix that has
  one and raises on a singular matrix. The model inverts by Gauss-Jordan elimination on
  the rows of \<open>[S | I]\<close> over the reals: for each column a row with a nonzero entry there is
  picked, scaled to 1 and subtracted from all other rows; a column with no such row makes
  the matrix singular. A matrix holding a \<open>NaN\<close> has no zero pivot for the library to
  object to, and its inverse is taken to be \<open>NaN\<close> throughout.
\<close>

datatype error = LinAlgError

definition row_scale :: "real \<Rightarrow> real list \<Rightarrow> real list" where
  "row_scale c r = map (\<lambda>x. c * x) r"

definition row_sub :: "real list \<Rightarrow> real \<Rightarrow> real list \<Rightarrow> real list" where
  "row_sub r c p = map2 (\<lambda>x y. x - c * y) r p"

fun find_pivot :: "nat \<Rightarrow> real list list \<Rightarrow> (real list \<times> real list list) option" where
  "find_pivot k [] = None"
| "find_pivot k (r # rs) =
     (if r ! k \<noteq> 0 then Some (r, rs)
      else (case find_pivot k rs of
              None \<Rightarrow> None
            | Some (p, rest) \<Rightarrow> Some (p, r # rest)))"

fun gauss_jordan ::
  "nat \<Rightarrow> nat \<Rightarrow> real list list \<Rightarrow> real list list \<Rightarrow> real list list option" where
  "gauss_jordan 0 k done rest = Some done"
| "gauss_jordan (Suc n) k done rest =
     (case find_pivot k rest of
        None \<Rightarrow> None
      | Some (p, rest') \<Rightarrow>
          (let p' = row_scale (1 / (p ! k)) p;
               elim = (\<lambda>r. row_sub r (r ! k) p')
           in gauss_jordan n (Suc k) (map elim done @ [p']) (map elim rest')))"

definition eye_real :: "nat \<Rightarrow> real list list" where
  "eye_real n = map (\<lambda>i. map (\<lambda>j. if i = j then 1 else 0) [0..<n]) [0..<n]"

definition inv_real :: "real list list \<Rightarrow> real list list option" where
  "inv_real S =
     (let n = length S in
      case gauss_jordan n 0 [] (map2 (@) S (eye_real n)) of
        None \<Rightarrow> None
      | Some rows \<Rightarrow> Some (map (drop n) rows))"

definition linalg_inv :: "mat \<Rightarrow> error + mat" where
  "linalg_inv S =
     (if fin_mat S
      then (case inv_real (map (map the_fin) S) of
              None \<Rightarrow> Inl LinAlgError
            | Some M \<Rightarrow> Inr (map (map Fin) M))
      else Inr (map (map (\<lambda>_. NaN)) S))"

section \<open>The helper module\<close>

text \<open>
  \<^verbatim>\<open>mathutils\<close> is imported by \<^verbatim>\<open>mekf.py\<close> and is not among the sources. The specification
  names what it provides: the Hamilton product, the left-multiplication matrix of a
  quaternion, the rotation matrix of a unit quaternion, the hat operator and the assembly
  of a matrix from blocks. Quaternions are scalar-first, as the increment
  \<open>[cos(\<theta>/2), r sin(\<theta>/2)]\<close> of the code is.
\<close>

text \<open>Modelled from the spec: \<^verbatim>\<open>hat\<close>, the skew-symmetric cross-product matrix of a 3-vector.\<close>

definition hat :: "vec \<Rightarrow> mat" where
  "hat v = [[0, - (v ! 2), v ! 1],
            [v ! 2, 0, - (v ! 0)],
            [- (v ! 1), v ! 0, 0]]"

text \<open>Modelled from the spec: \<^verbatim>\<open>block\<close>, the matrix assembled from rows of blocks.\<close>

fun hstack :: "mat list \<Rightarrow> mat" where
  "hstack [] = []"
| "hstack [A] = A"
| "hstack (A # As) = map2 (@) A (hstack As)"

definition block :: "mat list list \<Rightarrow> mat" where
  "block bs = concat (map hstack bs)"

text \<open>
  Modelled from the spec: \<^verbatim>\<open>quaternion_to_left_matrix\<close>, the matrix \<open>L(q)\<close> with
  \<open>L(q) p = q \<otimes> p\<close>, and \<^verbatim>\<open>quaternion_mul\<close>, the Hamilton product \<open>q \<otimes> p\<close>.
\<close>

definition quaternion_to_left_matrix :: "vec \<Rightarrow> mat" where
  "quaternion_to_left_matrix q =
     [[q ! 0, - (q ! 1), - (q ! 2), - (q ! 3)],
      [q ! 1, q ! 0, - (q ! 3), q ! 2],
      [q ! 2, q ! 3, q ! 0, - (q ! 1)],
      [q ! 3, - (q ! 2), q ! 1, q ! 0]]"

definition quaternion_mul :: "vec \<Rightarrow> vec \<Rightarrow> vec" where
  "quaternion_mul q p = matvec (quaternion_to_left_matrix q) p"

text \<open>
  Modelled from the spec: \<^verbatim>\<open>quaternion_to_rotation_matrix\<close>, the rotation matrix of a unit
  quaternion \<open>[s, x, y, z]\<close>.
\<close>

definition quaternion_to_rotation_matrix :: "vec \<Rightarrow> mat" where
  "quaternion_to_rotation_matrix q =
     (let s = q ! 0; x = q ! 1; y = q ! 2; z = q ! 3 in
      [[1 - Fin 2 * (y * y + z * z), Fin 2 * (x * y - s * z), Fin 2 * (x * z + s * y)],
       [Fin 2 * (x * y + s * z), 1 - Fin 2 * (x * x + z * z), Fin 2 * (y * z - s * x)],
       [Fin 2 * (x * z - s * y), Fin 2 * (y * z + s * x), 1 - Fin 2 * (x * x + y * y)]])"

section \<open>The filter\<close>

text \<open>
  \<^verbatim>\<open>State = namedtuple('State', ['q', '\<beta>', 'P'])\<close>: attitude quaternion, gyro bias and
  covariance.
\<close>

record State =
  state_q :: vec
  state_\<beta> :: vec
  state_P :: mat

text \<open>
  The module-level \<^verbatim>\<open>\<beta> = array([0., 0., 0.])\<close> of line 23. Nothing assigns to it again.
  Inside \<^verbatim>\<open>propagate_state\<close> the name \<^verbatim>\<open>\<beta>\<close> is the parameter (called \<open>b\<close> below); inside
  \<^verbatim>\<open>step\<close> no parameter or local variable has that name, so there it is this constant.
\<close>

definition \<beta> :: vec where
  "\<beta> = [Fin 0, Fin 0, Fin 0]"

text \<open>\<^verbatim>\<open>propagate_state(q, \<beta>, \<omega>, \<delta>t)\<close>, lines 29 to 41.\<close>

definition propagate_state :: "vec \<Rightarrow> vec \<Rightarrow> vec \<Rightarrow> num \<Rightarrow> vec" where
  "propagate_state q b \<omega> \<delta>t =
     (let \<theta> = linalg_norm (vsub \<omega> b) * \<delta>t in
      if linalg_norm (vsub \<omega> b) = Fin 0 then q
      else (let r = vdiv (vsub \<omega> b) (linalg_norm (vsub \<omega> b)) in
            quaternion_mul q ([fcos (fdiv \<theta> (Fin 2))] @ vscale r (fsin (fdiv \<theta> (Fin 2))))))"

text \<open>
  \<^verbatim>\<open>step(state, \<omega>, \<delta>t, nr_mag, nr_sun, br_mag, br_sun)\<close>, lines 43 to 111. Lines 86 and
  87 write the two body-frame vectors with a modifier letter, a small raised b, in place
  of the first letter; Python compares identifiers in their NFKC form, in which that
  letter is a plain b, so the names are the parameters \<^verbatim>\<open>br_mag\<close> and \<^verbatim>\<open>br_sun\<close>. The only
  exception that can leave \<^verbatim>\<open>step\<close> on inputs of the documented shapes is the one of
  \<^verbatim>\<open>linalg.inv\<close>.
\<close>

definition step ::
  "State \<Rightarrow> vec \<Rightarrow> num \<Rightarrow> vec \<Rightarrow> vec \<Rightarrow> vec \<Rightarrow> vec \<Rightarrow> error + State" where
  "step state \<omega> \<delta>t nr_mag nr_sun br_mag br_sun =
     (let W = mscale (eye 6) (Fin (1 / 1000000));
          V = mscale (eye 6) (Fin (1 / 1000000));
          q_p = propagate_state (state_q state) (state_\<beta> state) \<omega> \<delta>t;
          v = vneg (vsub \<omega> \<beta>);
          mag = linalg_norm v;
          v_hat = hat (vdiv v mag);
          R = madd (madd (eye 3) (mscale v_hat (fsin (mag * \<delta>t))))
                   (mscale (matmul v_hat v_hat) (1 - fcos (mag * \<delta>t)));
          A = block [[R, mscale (eye 3) (- \<delta>t)],
                     [zeros 3 3, eye 3]];
          P_p = madd (matmul A (matmul (state_P state) (transpose_m A))) W;
          Q = transpose_m (quaternion_to_rotation_matrix q_p);
          body_measurements = br_mag @ br_sun;
          inertial_measurements = nr_mag @ nr_sun;
          inertial_to_body = block [[Q, zeros 3 3],
                                    [zeros 3 3, Q]];
          Z = vsub body_measurements (matvec inertial_to_body inertial_measurements);
          C = block [[hat br_mag, zeros 3 3],
                     [hat br_sun, zeros 3 3]];
          S = madd (matmul C (matmul P_p (transpose_m C))) V
      in case linalg_inv S of
           Inl e \<Rightarrow> Inl e
         | Inr S_inv \<Rightarrow>
            (let L = matmul P_p (matmul (transpose_m C) S_inv);
                 \<delta>x = matvec L Z;
                 \<phi> = take 3 \<delta>x;
                 \<delta>\<beta> = drop 3 \<delta>x;
                 \<theta> = linalg_norm \<phi>;
                 r = vdiv \<phi> \<theta>;
                 q_u = matvec (quaternion_to_left_matrix q_p)
                              ([fcos (fdiv \<theta> (Fin 2))] @ vscale r (fsin (fdiv \<theta> (Fin 2))));
                 \<beta>_u = vadd \<beta> \<delta>\<beta>;
                 e1 = msub (eye 6) (matmul L C);
                 e2 = transpose_m (msub (eye 6) (matmul L C));
                 e3 = matmul e1 (matmul P_p e2);
                 e4 = matmul L (matmul V (transpose_m L));
                 P_u = madd e3 e4;
                 q_n = vdiv q_u (linalg_norm q_u)
             in Inr \<lparr>state_q = q_n, state_\<beta> = \<beta>_u, state_P = P_u\<rparr>))"

subsection \<open>The quantities of one step\<close>

text \<open>
  The intermediate values of \<^verbatim>\<open>step\<close>, each as a function of the inputs it depends on, so
  that statements can name them.
\<close>

definition noise :: mat where
  "noise = mscale (eye 6) (Fin (1 / 1000000))"

definition rate_v :: "vec \<Rightarrow> vec" where
  "rate_v \<omega> = vneg (vsub \<omega> \<beta>)"

definition axis_hat :: "vec \<Rightarrow> mat" where
  "axis_hat \<omega> = hat (vdiv (rate_v \<omega>) (linalg_norm (rate_v \<omega>)))"

definition trans_R :: "vec \<Rightarrow> num \<Rightarrow> mat" where
  "trans_R \<omega> \<delta>t =
     madd (madd (eye 3) (mscale (axis_hat \<omega>) (fsin (linalg_norm (rate_v \<omega>) * \<delta>t))))
          (mscale (matmul (axis_hat \<omega>) (axis_hat \<omega>))
                  (1 - fcos (linalg_norm (rate_v \<omega>) * \<delta>t)))"

definition trans_A :: "vec \<Rightarrow> num \<Rightarrow> mat" where
  "trans_A \<omega> \<delta>t = block [[trans_R \<omega> \<delta>t, mscale (eye 3) (- \<delta>t)],
                          [zeros 3 3, eye 3]]"

definition predict_P :: "State \<Rightarrow> vec \<Rightarrow> num \<Rightarrow> mat" where
  "predict_P state \<omega> \<delta>t =
     madd (matmul (trans_A \<omega> \<delta>t) (matmul (state_P state) (transpose_m (trans_A \<omega> \<delta>t)))) noise"

definition predict_q :: "State \<Rightarrow> vec \<Rightarrow> num \<Rightarrow> vec" where
  "predict_q state \<omega> \<delta>t = propagate_state (state_q state) (state_\<beta> state) \<omega> \<delta>t"

definition innovation :: "vec \<Rightarrow> vec \<Rightarrow> vec \<Rightarrow> vec \<Rightarrow> vec \<Rightarrow> vec" where
  "innovation q_p nr_mag nr_sun br_mag br_sun =
     (let Q = transpose_m (quaternion_to_rotation_matrix q_p) in
      vsub (br_mag @ br_sun)
           (matvec (block [[Q, zeros 3 3], [zeros 3 3, Q]]) (nr_mag @ nr_sun)))"

definition sens_C :: "vec \<Rightarrow> vec \<Rightarrow> mat" where
  "sens_C br_mag br_sun = block [[hat br_mag, zeros 3 3],
                                 [hat br_sun, zeros 3 3]]"

definition innov_S :: "mat \<Rightarrow> mat \<Rightarrow> mat" where
  "innov_S P_p C = madd (matmul C (matmul P_p (transpose_m C))) noise"

definition gain :: "mat \<Rightarrow> mat \<Rightarrow> mat \<Rightarrow> mat" where
  "gain P_p C S_inv = matmul P_p (matmul (transpose_m C) S_inv)"

definition increment :: "vec \<Rightarrow> vec" where
  "increment \<phi> =
     (let \<theta> = linalg_norm \<phi>; r = vdiv \<phi> \<theta> in
      [fcos (fdiv \<theta> (Fin 2))] @ vscale r (fsin (fdiv \<theta> (Fin 2))))"

definition update_q :: "vec \<Rightarrow> vec \<Rightarrow> vec" where
  "update_q q_p \<phi> = matvec (quaternion_to_left_matrix q_p) (increment \<phi>)"

definition normalize :: "vec \<Rightarrow> vec" where
  "normalize q_u = vdiv q_u (linalg_norm q_u)"

definition joseph :: "mat \<Rightarrow> mat \<Rightarrow> mat \<Rightarrow> mat \<Rightarrow> mat" where
  "joseph L C P_p V =
     madd (matmul (msub (eye 6) (matmul L C))
                  (matmul P_p (transpose_m (msub (eye 6) (matmul L C)))))
          (matmul L (matmul V (transpose_m L)))"

text \<open>Lines 91 to 111: the update, given what the prediction and the innovation produced.\<close>

definition update :: "vec \<Rightarrow> mat \<Rightarrow> vec \<Rightarrow> mat \<Rightarrow> mat \<Rightarrow> State" where
  "update q_p P_p Z C S_inv =
     (let L = gain P_p C S_inv;
          \<delta>x = matvec L Z
      in \<lparr>state_q = normalize (update_q q_p (take 3 \<delta>x)),
          state_\<beta> = vadd \<beta> (drop 3 \<delta>x),
          state_P = joseph L C P_p noise\<rparr>)"

definition step_S :: "State \<Rightarrow> vec \<Rightarrow> num \<Rightarrow> vec \<Rightarrow> vec \<Rightarrow> mat" where
  "step_S state \<omega> \<delta>t br_mag br_sun = innov_S (predict_P state \<omega> \<delta>t) (sens_C br_mag br_sun)"

definition kalman_gain :: "State \<Rightarrow> vec \<Rightarrow> num \<Rightarrow> vec \<Rightarrow> vec \<Rightarrow> mat \<Rightarrow> mat" where
  "kalman_gain state \<omega> \<delta>t br_mag br_sun S_inv =
     gain (predict_P state \<omega> \<delta>t) (sens_C br_mag br_sun) S_inv"

definition correction ::
  "State \<Rightarrow> vec \<Rightarrow> num \<Rightarrow> vec \<Rightarrow> vec \<Rightarrow> vec \<Rightarrow> vec \<Rightarrow> mat \<Rightarrow> vec" where
  "correction state \<omega> \<delta>t nr_mag nr_sun br_mag br_sun S_inv =
     matvec (kalman_gain state \<omega> \<delta>t br_mag br_sun S_inv)
            (innovation (predict_q state \<omega> \<delta>t) nr_mag nr_sun br_mag br_sun)"

definition updated ::
  "State \<Rightarrow> vec \<Rightarrow> num \<Rightarrow> vec \<Rightarrow> vec \<Rightarrow> vec \<Rightarrow> vec \<Rightarrow> mat \<Rightarrow> State" where
  "updated state \<omega> \<delta>t nr_mag nr_sun br_mag br_sun S_inv =
     \<lparr>state_q = normalize (update_q (predict_q state \<omega> \<delta>t)
                  (take 3 (correction state \<omega> \<delta>t nr_mag nr_sun br_mag br_sun S_inv))),
      state_\<beta> = vadd \<beta> (drop 3 (correction state \<omega> \<delta>t nr_mag nr_sun br_mag br_sun S_inv)),
      state_P = joseph (kalman_gain state \<omega> \<delta>t br_mag br_sun S_inv) (sens_C br_mag br_sun)
                  (predict_P state \<omega> \<delta>t) noise\<rparr>"

section \<open>The properties stated of the filter\<close>

text \<open>A matrix is symmetric when it equals its transpose.\<close>

definition symmetric :: "mat \<Rightarrow> bool" where
  "symmetric A = (transpose_m A = A)"

text \<open>
  The Joseph form \<open>(I - L C) P\<^sub>p (I - L C)\<^sup>T + L V L\<^sup>T\<close> as the specification writes it,
  the products taken from the left.
\<close>

definition joseph_form :: "mat \<Rightarrow> mat \<Rightarrow> mat \<Rightarrow> mat \<Rightarrow> mat" where
  "joseph_form L C P_p V =
     madd (matmul (matmul (msub (eye 6) (matmul L C)) P_p)
                  (transpose_m (msub (eye 6) (matmul L C))))
          (matmul (matmul L V) (transpose_m L))"

text \<open>
  The transition matrix as the specification writes it: \<open>[[R, -\<delta>t I], [0, I]]\<close> with
  \<open>R = I + K sin \<theta> + K\<^sup>2 (1 - cos \<theta>)\<close>, and the propagated covariance \<open>A P A\<^sup>T + W\<close>.
\<close>

definition rodrigues :: "mat \<Rightarrow> num \<Rightarrow> mat" where
  "rodrigues K \<theta> = madd (madd (eye 3) (mscale K (fsin \<theta>))) (mscale (matmul K K) (1 - fcos \<theta>))"

definition transition :: "mat \<Rightarrow> num \<Rightarrow> mat" where
  "transition R \<delta>t = block [[R, mscale (eye 3) (- \<delta>t)],
                           [zeros 3 3, eye 3]]"

definition propagated :: "mat \<Rightarrow> mat \<Rightarrow> mat \<Rightarrow> mat" where
  "propagated A P W = madd (matmul (matmul A P) (transpose_m A)) W"

text \<open>
  The transition matrix of the claim: \<open>K\<close> is the hat matrix of \<open>v = -(\<omega> - b)\<close> itself,
  for the bias \<open>b\<close> of the prior state.
\<close>

definition claimed_A :: "vec \<Rightarrow> vec \<Rightarrow> num \<Rightarrow> mat" where
  "claimed_A b \<omega> \<delta>t =
     (let v = vneg (vsub \<omega> b) in
      transition (rodrigues (hat v) (linalg_norm v * \<delta>t)) \<delta>t)"

subsection \<open>Invertible matrices\<close>

text \<open>
  The invariants of the elimination, for the soundness of the inverse: every row \<open>[a | b]\<close>
  of the augmented matrix satisfies \<open>a = b S\<close>, and in the first \<open>c\<close> columns the rows
  already chosen form the identity and the others are zero.
\<close>

definition row_ok :: "real list list \<Rightarrow> nat \<Rightarrow> real list \<Rightarrow> bool" where
  "row_ok S n r = (length r = n + n \<and> (\<forall>j<n. r ! j = (\<Sum>i<n. r ! (n + i) * S ! i ! j)))"

definition reduced :: "nat \<Rightarrow> real list list \<Rightarrow> real list list \<Rightarrow> bool" where
  "reduced c done rest =
     (length done = c \<and>
      (\<forall>i<c. \<forall>j<c. done ! i ! j = (if i = j then 1 else 0)) \<and>
      (\<forall>r\<in>set rest. \<forall>j<c. r ! j = 0))"

text \<open>A matrix of finite entries is invertible when some such matrix times it is the identity.\<close>

definition invertible :: "mat \<Rightarrow> bool" where
  "invertible S = (\<exists>M. is_mat 6 6 M \<and> fin_mat M \<and> matmul M S = eye 6)"

section \<open>Worked inputs\<close>

text \<open>
  A prior state with attitude \<open>[1, 0, 0, 0]\<close>, bias \<open>[0.01, 0, 0]\<close> and a covariance that
  couples attitude and bias errors; a gyro reading about the z axis; unit vectors along
  the axes as reference and measured directions.
\<close>

definition ex_P :: mat where
  "ex_P =
     [[Fin 1, Fin 0, Fin 0, Fin (- (1 / 2)), Fin 0, Fin 0],
      [Fin 0, Fin 1, Fin 0, Fin 0, Fin (- (1 / 2)), Fin 0],
      [Fin 0, Fin 0, Fin 1, Fin 0, Fin 0, Fin (- (1 / 2))],
      [Fin (- (1 / 2)), Fin 0, Fin 0, Fin 1, Fin 0, Fin 0],
      [Fin 0, Fin (- (1 / 2)), Fin 0, Fin 0, Fin 1, Fin 0],
      [Fin 0, Fin 0, Fin (- (1 / 2)), Fin 0, Fin 0, Fin 1]]"

definition ex_state :: State where
  "ex_state = \<lparr>state_q = [Fin 1, Fin 0, Fin 0, Fin 0],
               state_\<beta> = [Fin (1 / 100), Fin 0, Fin 0],
               state_P = ex_P\<rparr>"

definition ex_\<omega> :: vec where
  "ex_\<omega> = [Fin 0, Fin 0, Fin 1]"

definition ex_x :: vec where
  "ex_x = [Fin 1, Fin 0, Fin 0]"

definition ex_y :: vec where
  "ex_y = [Fin 0, Fin 1, Fin 0]"

definition ex_z :: vec where
  "ex_z = [Fin 0, Fin 0, Fin 1]"

definition ex_P_p :: mat where
  "ex_P_p =
     [[Fin (1000001 / 1000000), Fin 0, Fin 0, Fin (- (1 / 2)), Fin 0, Fin 0],
      [Fin 0, Fin (1000001 / 1000000), Fin 0, Fin 0, Fin (- (1 / 2)), Fin 0],
      [Fin 0, Fin 0, Fin (1000001 / 1000000), Fin 0, Fin 0, Fin (- (1 / 2))],
      [Fin (- (1 / 2)), Fin 0, Fin 0, Fin (1000001 / 1000000), Fin 0, Fin 0],
      [Fin 0, Fin (- (1 / 2)), Fin 0, Fin 0, Fin (1000001 / 1000000), Fin 0],
      [Fin 0, Fin 0, Fin (- (1 / 2)), Fin 0, Fin 0, Fin (1000001 / 1000000)]]"

definition ex_C :: mat where
  "ex_C =
     [[Fin 0, Fin 0, Fin 0, Fin 0, Fin 0, Fin 0],
      [Fin 0, Fin 0, Fin (- 1), Fin 0, Fin 0, Fin 0],
      [Fin 0, Fin 1, Fin 0, Fin 0, Fin 0, Fin 0],
      [Fin 0, Fin (- 1), Fin 0, Fin 0, Fin 0, Fin 0],
      [Fin 1, Fin 0, Fin 0, Fin 0, Fin 0, Fin 0],
      [Fin 0, Fin 0, Fin 0, Fin 0, Fin 0, Fin 0]]"

definition ex_S :: mat where
  "ex_S =
     [[Fin (1 / 1000000), Fin 0, Fin 0, Fin 0, Fin 0, Fin 0],
      [Fin 0, Fin (500001 / 500000), Fin 0, Fin 0, Fin 0, Fin 0],
      [Fin 0, Fin 0, Fin (500001 / 500000), Fin (- (1000001 / 1000000)), Fin 0, Fin 0],
      [Fin 0, Fin 0, Fin (- (1000001 / 1000000)), Fin (500001 / 500000), Fin 0, Fin 0],
      [Fin 0, Fin 0, Fin 0, Fin 0, Fin (500001 / 500000), Fin 0],
      [Fin 0, Fin 0, Fin 0, Fin 0, Fin 0, Fin (1 / 1000000)]]"

definition ex_S_inv :: mat where
  "ex_S_inv =
     [[Fin 1000000, Fin 0, Fin 0, Fin 0, Fin 0, Fin 0],
      [Fin 0, Fin (500000 / 500001), Fin 0, Fin 0, Fin 0, Fin 0],
      [Fin 0, Fin 0, Fin (1000002000000 / 2000003), Fin (1000001000000 / 2000003), Fin 0, Fin 0],
      [Fin 0, Fin 0, Fin (1000001000000 / 2000003), Fin (1000002000000 / 2000003), Fin 0, Fin 0],
      [Fin 0, Fin 0, Fin 0, Fin 0, Fin (500000 / 500001), Fin 0],
      [Fin 0, Fin 0, Fin 0, Fin 0, Fin 0, Fin 1000000]]"

text \<open>
  An input with a singular innovation covariance: the prior covariance is \<open>-2 10\<^sup>-\<^sup>6 I\<close>,
  which no covariance is, and the sun vector reads zero.
\<close>

definition sing_state :: State where
  "sing_state = \<lparr>state_q = [Fin 1, Fin 0, Fin 0, Fin 0],
                 state_\<beta> = [Fin 0, Fin 0, Fin 0],
                 state_P = mscale (eye 6) (Fin (- (2 / 1000000)))\<rparr>"

definition sing_S :: mat where
  "sing_S =
     [[Fin (1 / 1000000), Fin 0, Fin 0, Fin 0, Fin 0, Fin 0],
      [Fin 0, Fin 0, Fin 0, Fin 0, Fin 0, Fin 0],
      [Fin 0, Fin 0, Fin 0, Fin 0, Fin 0, Fin 0],
      [Fin 0, Fin 0, Fin 0, Fin (1 / 1000000), Fin 0, Fin 0],
      [Fin 0, Fin 0, Fin 0, Fin 0, Fin (1 / 1000000), Fin 0],
      [Fin 0, Fin 0, Fin 0, Fin 0, Fin 0, Fin (1 / 1000000)]]"

definition ex_0 :: vec where
  "ex_0 = [Fin 0, Fin 0, Fin 0]"

section \<open>The step in terms of its quantities\<close>

lemma step_eq:
  "step state \<omega> \<delta>t nr_mag nr_sun br_mag br_sun =
     (case linalg_inv (step_S state \<omega> \<delta>t br_mag br_sun) of
        Inl e \<Rightarrow> Inl e
      | Inr S_inv \<Rightarrow> Inr (updated state \<omega> \<delta>t nr_mag nr_sun br_mag br_sun S_inv))"
  unfolding step_def Let_def updated_def correction_def kalman_gain_def step_S_def
    joseph_def normalize_def update_q_def increment_def gain_def innov_S_def sens_C_def
    innovation_def predict_q_def predict_P_def trans_A_def trans_R_def axis_hat_def
    rate_v_def noise_def
  by (rule refl)

lemma step_returns:
  assumes "linalg_inv (step_S state \<omega> \<delta>t br_mag br_sun) = Inr S_inv"
  shows "step state \<omega> \<delta>t nr_mag nr_sun br_mag br_sun =
           Inr (updated state \<omega> \<delta>t nr_mag nr_sun br_mag br_sun S_inv)"
  by (simp add: step_eq assms)

lemma step_raises:
  assumes "linalg_inv (step_S state \<omega> \<delta>t br_mag br_sun) = Inl e"
  shows "step state \<omega> \<delta>t nr_mag nr_sun br_mag br_sun = Inl e"
  by (simp add: step_eq assms)

lemma step_InrD:
  assumes "step state \<omega> \<delta>t nr_mag nr_sun br_mag br_sun = Inr s'"
  obtains S_inv where "linalg_inv (step_S state \<omega> \<delta>t br_mag br_sun) = Inr S_inv"
    and "s' = updated state \<omega> \<delta>t nr_mag nr_sun br_mag br_sun S_inv"
  using assms by (auto simp: step_eq split: sum.splits)

lemma updated_eq:
  "updated state \<omega> \<delta>t nr_mag nr_sun br_mag br_sun S_inv =
     update (predict_q state \<omega> \<delta>t) (predict_P state \<omega> \<delta>t)
       (innovation (predict_q state \<omega> \<delta>t) nr_mag nr_sun br_mag br_sun)
       (sens_C br_mag br_sun) S_inv"
  by (simp add: updated_def update_def correction_def kalman_gain_def Let_def)

section \<open>The worked inputs, evaluated\<close>

lemmas array_defs = zero_num_def one_num_def vadd_def vsub_def vneg_def vscale_def vdiv_def
  madd_def msub_def mscale_def eye_def zeros_def ncols_def transpose_m_def dot_def
  matvec_def matmul_def linalg_norm_def hat_def block_def quaternion_to_left_matrix_def
  quaternion_mul_def quaternion_to_rotation_matrix_def \<beta>_def Let_def upt_rec

lemmas ex_defs = ex_state_def ex_P_def ex_\<omega>_def ex_x_def ex_y_def ex_z_def

lemma ex_predict_q: "predict_q ex_state ex_\<omega> (Fin 0) = [Fin 1, Fin 0, Fin 0, Fin 0]"
  by (simp add: predict_q_def propagate_state_def ex_defs array_defs)

lemma ex_trans_A: "trans_A ex_\<omega> (Fin 0) = eye 6"
  by (simp add: trans_A_def trans_R_def axis_hat_def rate_v_def ex_defs array_defs)

lemma ex_predict_P: "predict_P ex_state ex_\<omega> (Fin 0) = ex_P_p"
  unfolding predict_P_def ex_trans_A
  by (simp add: noise_def ex_defs ex_P_p_def array_defs)

lemma ex_sens_C: "sens_C ex_x ex_z = ex_C"
  by (simp add: sens_C_def ex_defs ex_C_def array_defs)

lemma ex_step_S: "step_S ex_state ex_\<omega> (Fin 0) ex_x ex_z = ex_S"
  unfolding step_S_def ex_predict_P ex_sens_C
  by (simp add: innov_S_def noise_def ex_P_p_def ex_C_def ex_S_def array_defs)

lemma ex_inv: "linalg_inv (step_S ex_state ex_\<omega> (Fin 0) ex_x ex_z) = Inr ex_S_inv"
  unfolding ex_step_S
  by (simp add: linalg_inv_def fin_mat_def inv_real_def eye_real_def row_scale_def row_sub_def
      ex_S_def ex_S_inv_def Let_def upt_rec)

lemma ex_step:
  "step ex_state ex_\<omega> (Fin 0) nr_mag nr_sun ex_x ex_z =
     Inr (updated ex_state ex_\<omega> (Fin 0) nr_mag nr_sun ex_x ex_z ex_S_inv)"
  by (rule step_returns [OF ex_inv])

lemma ex_kalman_gain:
  "kalman_gain ex_state ex_\<omega> (Fin 0) ex_x ex_z ex_S_inv =
     [[Fin 0, Fin 0, Fin 0, Fin 0, Fin (1000001 / 1000002), Fin 0],
      [Fin 0, Fin 0, Fin (1000001 / 2000003), Fin (- (1000001 / 2000003)), Fin 0, Fin 0],
      [Fin 0, Fin (- (1000001 / 1000002)), Fin 0, Fin 0, Fin 0, Fin 0],
      [Fin 0, Fin 0, Fin 0, Fin 0, Fin (- (250000 / 500001)), Fin 0],
      [Fin 0, Fin 0, Fin (- (500000 / 2000003)), Fin (500000 / 2000003), Fin 0, Fin 0],
      [Fin 0, Fin (250000 / 500001), Fin 0, Fin 0, Fin 0, Fin 0]]"
  unfolding kalman_gain_def ex_predict_P ex_sens_C
  by (simp add: gain_def ex_P_p_def ex_C_def ex_S_inv_def array_defs)

lemma ex_innovation_turned:
  "innovation [Fin 1, Fin 0, Fin 0, Fin 0] ex_x ex_y ex_x ex_z =
     [Fin 0, Fin 0, Fin 0, Fin 0, Fin (- 1), Fin 1]"
  by (simp add: innovation_def ex_defs array_defs)

lemma ex_innovation_still:
  "innovation [Fin 1, Fin 0, Fin 0, Fin 0] ex_x ex_z ex_x ex_z =
     [Fin 0, Fin 0, Fin 0, Fin 0, Fin 0, Fin 0]"
  by (simp add: innovation_def ex_defs array_defs)

lemma ex_correction_turned:
  "correction ex_state ex_\<omega> (Fin 0) ex_x ex_y ex_x ex_z ex_S_inv =
     [Fin (- (1000001 / 1000002)), Fin 0, Fin 0, Fin (250000 / 500001), Fin 0, Fin 0]"
  unfolding correction_def ex_kalman_gain ex_predict_q ex_innovation_turned
  by (simp add: matvec_def dot_def)

lemma ex_correction_still:
  "correction ex_state ex_\<omega> (Fin 0) ex_x ex_z ex_x ex_z ex_S_inv =
     [Fin 0, Fin 0, Fin 0, Fin 0, Fin 0, Fin 0]"
  unfolding correction_def ex_kalman_gain ex_predict_q ex_innovation_still
  by (simp add: matvec_def dot_def)

section \<open>Shapes\<close>

lemma is_mat_iff: "is_mat n m A \<longleftrightarrow> length A = n \<and> (\<forall>i<n. length (A ! i) = m)"
  by (auto simp: is_mat_def list_all_length)

lemma is_matI: "length A = n \<Longrightarrow> (\<And>i. i < n \<Longrightarrow> length (A ! i) = m) \<Longrightarrow> is_mat n m A"
  by (simp add: is_mat_iff)

lemma is_mat_length: "is_mat n m A \<Longrightarrow> length A = n"
  by (simp add: is_mat_iff)

lemma is_mat_row: "is_mat n m A \<Longrightarrow> i < n \<Longrightarrow> length (A ! i) = m"
  by (simp add: is_mat_iff)

lemma is_mat_ncols: "is_mat n m A \<Longrightarrow> 0 < n \<Longrightarrow> ncols A = m"
  by (cases A) (auto simp: is_mat_def ncols_def)

lemma length_eye [simp]: "length (eye n) = n"
  by (simp add: eye_def)

lemma length_zeros [simp]: "length (zeros n m) = n"
  by (simp add: zeros_def)

lemma length_hat [simp]: "length (hat v) = 3"
  by (simp add: hat_def)

lemma length_vadd [simp]: "length (vadd u v) = min (length u) (length v)"
  by (simp add: vadd_def)

lemma length_vsub [simp]: "length (vsub u v) = min (length u) (length v)"
  by (simp add: vsub_def)

lemma length_vscale [simp]: "length (vscale v c) = length v"
  by (simp add: vscale_def)

lemma length_vdiv [simp]: "length (vdiv v c) = length v"
  by (simp add: vdiv_def)

lemma length_vneg [simp]: "length (vneg v) = length v"
  by (simp add: vneg_def)

lemma length_mscale [simp]: "length (mscale A c) = length A"
  by (simp add: mscale_def)

lemma length_madd [simp]: "length (madd A B) = min (length A) (length B)"
  by (simp add: madd_def)

lemma length_msub [simp]: "length (msub A B) = min (length A) (length B)"
  by (simp add: msub_def)

lemma length_matmul [simp]: "length (matmul A B) = length A"
  by (simp add: matmul_def)

lemma length_matvec [simp]: "length (matvec A v) = length A"
  by (simp add: matvec_def)

lemma length_transpose_m [simp]: "length (transpose_m A) = ncols A"
  by (simp add: transpose_m_def)

lemma block_2x2: "block [[A, B], [C, D]] = map2 (@) A B @ map2 (@) C D"
  by (simp add: block_def)

lemma length_block_2x2 [simp]:
  "length (block [[A, B], [C, D]]) = min (length A) (length B) + min (length C) (length D)"
  by (simp add: block_2x2)

lemma is_mat_eye [simp]: "is_mat n n (eye n)"
  by (simp add: is_mat_iff eye_def)

lemma is_mat_zeros [simp]: "is_mat n m (zeros n m)"
  by (simp add: is_mat_iff zeros_def)

lemma is_mat_hat [simp]: "is_mat 3 3 (hat v)"
  by (simp add: is_mat_def hat_def)

lemma is_mat_mscale: "is_mat n m A \<Longrightarrow> is_mat n m (mscale A c)"
  by (simp add: is_mat_iff mscale_def)

lemma is_mat_madd: "is_mat n m A \<Longrightarrow> is_mat n m B \<Longrightarrow> is_mat n m (madd A B)"
  by (simp add: is_mat_iff madd_def)

lemma is_mat_msub: "is_mat n m A \<Longrightarrow> is_mat n m B \<Longrightarrow> is_mat n m (msub A B)"
  by (simp add: is_mat_iff msub_def)

lemma is_mat_transpose: "is_mat n m A \<Longrightarrow> 0 < n \<Longrightarrow> is_mat m n (transpose_m A)"
  by (simp add: is_mat_ncols is_mat_length is_mat_iff [of m n] transpose_m_def)

lemma is_mat_matmul:
  "is_mat n m A \<Longrightarrow> is_mat m p B \<Longrightarrow> 0 < m \<Longrightarrow> is_mat n p (matmul A B)"
  by (simp add: is_mat_ncols is_mat_length is_mat_iff [of n p] matmul_def)

lemma is_mat_block:
  assumes "is_mat n m A" "is_mat n m' B" "is_mat n' m C" "is_mat n' m' D"
  shows "is_mat (n + n') (m + m') (block [[A, B], [C, D]])"
  using assms by (auto simp: is_mat_iff block_2x2 nth_append)

section \<open>Entries\<close>

lemma mat_eqI:
  assumes "is_mat n m A" "is_mat n m B"
    and "\<And>i j. i < n \<Longrightarrow> j < m \<Longrightarrow> A ! i ! j = B ! i ! j"
  shows "A = B"
proof (rule nth_equalityI)
  show "length A = length B"
    using assms by (simp add: is_mat_iff)
next
  fix i assume "i < length A"
  then have i: "i < n" using assms(1) by (simp add: is_mat_iff)
  show "A ! i = B ! i"
    by (rule nth_equalityI) (use i assms in \<open>auto simp: is_mat_iff\<close>)
qed

lemma nth_transpose:
  assumes "is_mat n m A" "i < m" "j < n"
  shows "transpose_m A ! i ! j = A ! j ! i"
proof -
  have "ncols A = m" using assms by (intro is_mat_ncols) auto
  with assms show ?thesis by (simp add: transpose_m_def is_mat_iff)
qed

lemma nth_madd:
  assumes "is_mat n m A" "is_mat n m B" "i < n" "j < m"
  shows "madd A B ! i ! j = A ! i ! j + B ! i ! j"
  using assms by (simp add: madd_def vadd_def is_mat_iff)

lemma nth_msub:
  assumes "is_mat n m A" "is_mat n m B" "i < n" "j < m"
  shows "msub A B ! i ! j = A ! i ! j - B ! i ! j"
  using assms by (simp add: msub_def vsub_def is_mat_iff)

lemma nth_mscale:
  assumes "is_mat n m A" "i < n" "j < m"
  shows "mscale A c ! i ! j = A ! i ! j * c"
  using assms by (simp add: mscale_def vscale_def is_mat_iff)

lemma nth_eye: "i < n \<Longrightarrow> j < n \<Longrightarrow> eye n ! i ! j = (if i = j then 1 else 0)"
  by (simp add: eye_def)

lemma dot_sum:
  assumes "length u = m" "length v = m"
  shows "dot u v = (\<Sum>k<m. u ! k * v ! k)"
proof -
  have "dot u v = (\<Sum>k = 0..<length (map2 (*) u v). map2 (*) u v ! k)"
    unfolding dot_def by (rule sum_list_sum_nth)
  also have "\<dots> = (\<Sum>k = 0..<m. u ! k * v ! k)"
    using assms by (intro sum.cong) auto
  finally show ?thesis by (simp add: atLeast0LessThan)
qed

lemma nth_matmul:
  assumes "is_mat n m A" "is_mat m p B" "i < n" "j < p" "0 < m"
  shows "matmul A B ! i ! j = (\<Sum>k<m. A ! i ! k * B ! k ! j)"
proof -
  have nc: "ncols B = p" using assms by (intro is_mat_ncols) auto
  have "matmul A B ! i ! j = dot (A ! i) (transpose_m B ! j)"
    using assms nc by (simp add: matmul_def is_mat_iff)
  also have "\<dots> = (\<Sum>k<m. A ! i ! k * transpose_m B ! j ! k)"
    using assms nc by (intro dot_sum) (auto simp: is_mat_iff transpose_m_def)
  also have "\<dots> = (\<Sum>k<m. A ! i ! k * B ! k ! j)"
    using assms by (intro sum.cong) (auto simp: nth_transpose)
  finally show ?thesis .
qed

section \<open>Algebra of the matrix product\<close>

text \<open>
  \<open>NaN\<close> is absorbing, so \<open>0 * a\<close> is not \<open>0\<close> for every \<open>a\<close>; sums of products still
  distribute over sums with at least one term.
\<close>

lemma num_sum_distrib_left:
  fixes f :: "nat \<Rightarrow> num"
  assumes "0 < m"
  shows "a * (\<Sum>k<m. f k) = (\<Sum>k<m. a * f k)"
  using assms
proof (induction m rule: nat_induct_non_zero)
  case 1
  show ?case by simp
next
  case (Suc m)
  then show ?case by (simp add: distrib_left)
qed

lemma num_sum_distrib_right:
  fixes f :: "nat \<Rightarrow> num"
  assumes "0 < m"
  shows "(\<Sum>k<m. f k) * a = (\<Sum>k<m. f k * a)"
  using num_sum_distrib_left [OF assms, of a f] by (simp add: mult.commute)

lemma transpose_transpose:
  assumes "is_mat n m A" "0 < n" "0 < m"
  shows "transpose_m (transpose_m A) = A"
proof (rule mat_eqI [of n m])
  show "is_mat n m (transpose_m (transpose_m A))"
    using assms by (intro is_mat_transpose) auto
  show "is_mat n m A" by fact
next
  fix i j assume "i < n" "j < m"
  then show "transpose_m (transpose_m A) ! i ! j = A ! i ! j"
    using assms by (simp add: nth_transpose [of m n] nth_transpose [of n m] is_mat_transpose)
qed

lemma transpose_madd:
  assumes "is_mat n m A" "is_mat n m B" "0 < n"
  shows "transpose_m (madd A B) = madd (transpose_m A) (transpose_m B)"
proof (rule mat_eqI [of m n])
  show "is_mat m n (transpose_m (madd A B))"
    using assms by (intro is_mat_transpose is_mat_madd) auto
  show "is_mat m n (madd (transpose_m A) (transpose_m B))"
    using assms by (intro is_mat_transpose is_mat_madd) auto
next
  fix i j assume "i < m" "j < n"
  then show "transpose_m (madd A B) ! i ! j = madd (transpose_m A) (transpose_m B) ! i ! j"
    using assms
    by (simp add: nth_transpose [of n m] nth_madd [of n m] nth_madd [of m n]
        is_mat_madd is_mat_transpose)
qed

lemma transpose_matmul:
  assumes "is_mat n m A" "is_mat m p B" "0 < n" "0 < m" "0 < p"
  shows "transpose_m (matmul A B) = matmul (transpose_m B) (transpose_m A)"
proof (rule mat_eqI [of p n])
  show "is_mat p n (transpose_m (matmul A B))"
    using assms by (intro is_mat_transpose is_mat_matmul [of n m]) auto
  show "is_mat p n (matmul (transpose_m B) (transpose_m A))"
    using assms by (intro is_mat_matmul [of p m] is_mat_transpose) auto
next
  fix i j assume ij: "i < p" "j < n"
  have "transpose_m (matmul A B) ! i ! j = (\<Sum>k<m. A ! j ! k * B ! k ! i)"
    using assms ij
    by (simp add: nth_transpose [of n p] is_mat_matmul [of n m] nth_matmul [of n m _ p])
  also have "\<dots> = (\<Sum>k<m. transpose_m B ! i ! k * transpose_m A ! k ! j)"
    using assms ij by (intro sum.cong) (auto simp: nth_transpose [of m p] nth_transpose [of n m] mult.commute)
  also have "\<dots> = matmul (transpose_m B) (transpose_m A) ! i ! j"
    using assms ij by (simp add: nth_matmul [of p m _ n] is_mat_transpose)
  finally show "transpose_m (matmul A B) ! i ! j = matmul (transpose_m B) (transpose_m A) ! i ! j" .
qed

lemma matmul_assoc:
  assumes "is_mat n m A" "is_mat m p B" "is_mat p r C" "0 < m" "0 < p"
  shows "matmul (matmul A B) C = matmul A (matmul B C)"
proof (rule mat_eqI [of n r])
  show "is_mat n r (matmul (matmul A B) C)"
    using assms by (intro is_mat_matmul [of n p] is_mat_matmul [of n m]) auto
  show "is_mat n r (matmul A (matmul B C))"
    using assms by (intro is_mat_matmul [of n m] is_mat_matmul [of m p]) auto
next
  fix i j assume ij: "i < n" "j < r"
  have "matmul (matmul A B) C ! i ! j = (\<Sum>l<p. (\<Sum>k<m. A ! i ! k * B ! k ! l) * C ! l ! j)"
    using assms ij
    by (simp add: nth_matmul [of n p _ r] is_mat_matmul [of n m] nth_matmul [of n m _ p])
  also have "\<dots> = (\<Sum>l<p. \<Sum>k<m. A ! i ! k * B ! k ! l * C ! l ! j)"
    using assms by (simp add: num_sum_distrib_right)
  also have "\<dots> = (\<Sum>k<m. \<Sum>l<p. A ! i ! k * B ! k ! l * C ! l ! j)"
    by (rule sum.swap)
  also have "\<dots> = (\<Sum>k<m. A ! i ! k * (\<Sum>l<p. B ! k ! l * C ! l ! j))"
    using assms by (simp add: num_sum_distrib_left mult.assoc)
  also have "\<dots> = matmul A (matmul B C) ! i ! j"
    using assms ij
    by (simp add: nth_matmul [of n m _ r] is_mat_matmul [of m p] nth_matmul [of m p _ r])
  finally show "matmul (matmul A B) C ! i ! j = matmul A (matmul B C) ! i ! j" .
qed

section \<open>The bias update\<close>

lemma length_trans_A [simp]: "length (trans_A \<omega> \<delta>t) = 6"
  by (simp add: trans_A_def trans_R_def axis_hat_def)

lemma length_predict_P [simp]: "length (predict_P state \<omega> \<delta>t) = 6"
  by (simp add: predict_P_def noise_def)

lemma length_correction [simp]:
  "length (correction state \<omega> \<delta>t nr_mag nr_sun br_mag br_sun S_inv) = 6"
  by (simp add: correction_def kalman_gain_def gain_def)

lemma vadd_module_bias:
  assumes "length v = 3"
  shows "vadd \<beta> v = v"
proof -
  from assms obtain a b c where "v = [a, b, c]"
    by (auto simp: numeral_3_eq_3 length_Suc_conv)
  then show ?thesis
    using add_0 [of a] add_0 [of b] add_0 [of c]
    by (simp add: vadd_def \<beta>_def zero_num_def)
qed

text \<open>
  C10: whenever \<^verbatim>\<open>step\<close> returns a state, the inverse \<open>S_inv\<close> of the innovation covariance
  exists and the bias of the returned state is exactly the last three components of the
  correction \<open>\<delta>x = L Z\<close>. The term added to them is the module-level \<open>\<beta>\<close>, the zero
  vector, and not the bias of the input state, which does not occur in the result.
\<close>

theorem step_bias_is_correction:
  assumes "step state \<omega> \<delta>t nr_mag nr_sun br_mag br_sun = Inr s'"
  shows "\<exists>S_inv. linalg_inv (step_S state \<omega> \<delta>t br_mag br_sun) = Inr S_inv \<and>
           state_\<beta> s' = drop 3 (correction state \<omega> \<delta>t nr_mag nr_sun br_mag br_sun S_inv)"
proof -
  from assms obtain S_inv where
    inv: "linalg_inv (step_S state \<omega> \<delta>t br_mag br_sun) = Inr S_inv" and
    s': "s' = updated state \<omega> \<delta>t nr_mag nr_sun br_mag br_sun S_inv"
    by (rule step_InrD)
  have "state_\<beta> s' = vadd \<beta> (drop 3 (correction state \<omega> \<delta>t nr_mag nr_sun br_mag br_sun S_inv))"
    by (simp add: s' updated_def)
  also have "\<dots> = drop 3 (correction state \<omega> \<delta>t nr_mag nr_sun br_mag br_sun S_inv)"
    by (rule vadd_module_bias) simp
  finally show ?thesis using inv by blast
qed

theorem step_bias_is_correction_witness:
  "step ex_state ex_\<omega> (Fin 0) ex_x ex_y ex_x ex_z =
     Inr (updated ex_state ex_\<omega> (Fin 0) ex_x ex_y ex_x ex_z ex_S_inv) \<and>
   state_\<beta> (updated ex_state ex_\<omega> (Fin 0) ex_x ex_y ex_x ex_z ex_S_inv) =
     [Fin (250000 / 500001), Fin 0, Fin 0]"
  using step_bias_is_correction [OF ex_step, of ex_x ex_y] ex_step [of ex_x ex_y]
  by (auto simp: ex_inv ex_correction_turned)

text \<open>
  C1: at the worked input the prior bias is \<open>[0.01, 0, 0]\<close> and the bias part of the
  correction is \<open>[250000/500001, 0, 0]\<close>. \<^verbatim>\<open>step\<close> returns the latter as the new bias,
  where the sum of the two is \<open>[0.01 + 250000/500001, 0, 0]\<close>: the prior bias is lost.
\<close>

theorem step_bias_drops_prior:
  "step ex_state ex_\<omega> (Fin 0) ex_x ex_y ex_x ex_z =
     Inr (updated ex_state ex_\<omega> (Fin 0) ex_x ex_y ex_x ex_z ex_S_inv) \<and>
   state_\<beta> (updated ex_state ex_\<omega> (Fin 0) ex_x ex_y ex_x ex_z ex_S_inv) =
     [Fin (250000 / 500001), Fin 0, Fin 0] \<and>
   vadd (state_\<beta> ex_state)
        (drop 3 (correction ex_state ex_\<omega> (Fin 0) ex_x ex_y ex_x ex_z ex_S_inv)) =
     [Fin (1 / 100 + 250000 / 500001), Fin 0, Fin 0] \<and>
   state_\<beta> (updated ex_state ex_\<omega> (Fin 0) ex_x ex_y ex_x ex_z ex_S_inv) \<noteq>
     vadd (state_\<beta> ex_state)
          (drop 3 (correction ex_state ex_\<omega> (Fin 0) ex_x ex_y ex_x ex_z ex_S_inv))"
proof -
  have "state_\<beta> ex_state = [Fin (1 / 100), Fin 0, Fin 0]"
    by (simp add: ex_state_def)
  then show ?thesis
    by (simp add: ex_step ex_correction_turned updated_def vadd_def \<beta>_def)
qed

section \<open>The shape of an inverse\<close>

lemma find_pivot_Some:
  assumes "find_pivot c rest = Some (p, rest')"
  shows "p ! c \<noteq> 0 \<and> length rest = Suc (length rest') \<and> set rest = insert p (set rest')"
  using assms
proof (induction rest arbitrary: p rest')
  case Nil
  then show ?case by simp
next
  case (Cons r rs)
  show ?case
  proof (cases "r ! c \<noteq> 0")
    case True
    with Cons.prems show ?thesis by auto
  next
    case False
    with Cons.prems obtain rest0 where
      f: "find_pivot c rs = Some (p, rest0)" and r: "rest' = r # rest0"
      by (auto split: option.splits)
    from Cons.IH [OF f] r show ?thesis by auto
  qed
qed

lemma length_row_scale [simp]: "length (row_scale c r) = length r"
  by (simp add: row_scale_def)

lemma length_row_sub [simp]: "length (row_sub r c p) = min (length r) (length p)"
  by (simp add: row_sub_def)

lemma gauss_jordan_shape:
  assumes "gauss_jordan k c done rest = Some rows"
    and "\<And>r. r \<in> set done \<union> set rest \<Longrightarrow> length r = w"
  shows "length rows = length done + k \<and> (\<forall>r\<in>set rows. length r = w)"
  using assms
proof (induction k arbitrary: c "done" rest)
  case 0
  then show ?case by auto
next
  case (Suc k)
  from Suc.prems(1) obtain p rest' where
    f: "find_pivot c rest = Some (p, rest')"
    by (auto split: option.splits)
  define p' where "p' = row_scale (1 / (p ! c)) p"
  define elim where "elim = (\<lambda>r. row_sub r (r ! c) p')"
  from Suc.prems(1) f have
    g: "gauss_jordan k (Suc c) (map elim done @ [p']) (map elim rest') = Some rows"
    by (simp add: Let_def p'_def elim_def)
  from find_pivot_Some [OF f] have p: "p \<in> set rest" and sub: "set rest' \<subseteq> set rest"
    by auto
  have lp: "length p' = w"
    using p Suc.prems(2) by (simp add: p'_def)
  have "length r = w" if "r \<in> set (map elim done @ [p']) \<union> set (map elim rest')" for r
    using that lp sub Suc.prems(2) by (auto simp: elim_def)
  from Suc.IH [OF g this] show ?case by simp
qed

lemma is_mat_map_map: "is_mat n m A \<Longrightarrow> is_mat n m (map (map f) A)"
  by (simp add: is_mat_iff)

lemma inv_real_shape:
  assumes "inv_real S = Some M" "is_mat n n S"
  shows "is_mat n n M"
proof -
  have n: "length S = n" using assms(2) by (simp add: is_mat_iff)
  from assms(1) obtain rows where
    g: "gauss_jordan n 0 [] (map2 (@) S (eye_real n)) = Some rows" and M: "M = map (drop n) rows"
    by (auto simp: inv_real_def Let_def n split: option.splits)
  have "length r = n + n" if "r \<in> set [] \<union> set (map2 (@) S (eye_real n))" for r
  proof -
    from that obtain i where "i < n" "r = S ! i @ eye_real n ! i"
      by (auto simp: set_conv_nth eye_real_def n)
    then show ?thesis using assms(2) by (simp add: is_mat_iff eye_real_def)
  qed
  from gauss_jordan_shape [OF g this] have "length rows = n" "\<forall>r\<in>set rows. length r = n + n"
    by auto
  then show ?thesis by (simp add: M is_mat_def list_all_iff)
qed

lemma linalg_inv_shape:
  assumes "linalg_inv S = Inr M" "is_mat n n S"
  shows "is_mat n n M"
proof (cases "fin_mat S")
  case True
  with assms(1) obtain R where "inv_real (map (map the_fin) S) = Some R" "M = map (map Fin) R"
    by (auto simp: linalg_inv_def split: option.splits)
  then show ?thesis
    using inv_real_shape [of "map (map the_fin) S" R n] assms(2) by (simp add: is_mat_map_map)
next
  case False
  with assms show ?thesis by (auto simp: linalg_inv_def is_mat_map_map)
qed

section \<open>Soundness of the inverse\<close>

lemma row_ok_scale:
  assumes "row_ok S n r"
  shows "row_ok S n (row_scale c r)"
  using assms
  by (simp add: row_ok_def row_scale_def sum_distrib_left mult.assoc)

lemma row_ok_sub:
  assumes "row_ok S n r" "row_ok S n p"
  shows "row_ok S n (row_sub r c p)"
  using assms
  by (simp add: row_ok_def row_sub_def sum_distrib_left sum_subtractf left_diff_distrib mult.assoc)

lemma row_ok_init:
  assumes "is_mat n n S" "i < n"
  shows "row_ok S n (S ! i @ eye_real n ! i)"
proof -
  have len: "length (S ! i) = n" using assms by (simp add: is_mat_iff)
  have "(\<Sum>k<n. (S ! i @ eye_real n ! i) ! (n + k) * S ! k ! j) = S ! i ! j" if "j < n" for j
  proof -
    have "(\<Sum>k<n. (S ! i @ eye_real n ! i) ! (n + k) * S ! k ! j) =
          (\<Sum>k<n. (if i = k then 1 else 0) * S ! k ! j)"
      using assms len by (intro sum.cong) (auto simp: nth_append eye_real_def)
    also have "\<dots> = (\<Sum>k<n. if k = i then S ! k ! j else 0)"
      by (intro sum.cong) auto
    also have "\<dots> = S ! i ! j"
      using assms by (simp add: sum.delta)
    finally show ?thesis .
  qed
  then show ?thesis
    using assms len by (simp add: row_ok_def nth_append eye_real_def)
qed

lemma gauss_jordan_sound:
  assumes "gauss_jordan k c done rest = Some rows"
    and "\<And>r. r \<in> set done \<union> set rest \<Longrightarrow> row_ok S n r"
    and "reduced c done rest"
    and "c + k = n"
  shows "reduced n rows [] \<and> (\<forall>r\<in>set rows. row_ok S n r)"
  using assms
proof (induction k arbitrary: c "done" rest)
  case 0
  then show ?case by (auto simp: reduced_def)
next
  case (Suc k)
  from Suc.prems(1) obtain p rest' where
    f: "find_pivot c rest = Some (p, rest')"
    by (auto split: option.splits)
  define p' where "p' = row_scale (1 / (p ! c)) p"
  define elim where "elim = (\<lambda>r. row_sub r (r ! c) p')"
  from Suc.prems(1) f have
    g: "gauss_jordan k (Suc c) (map elim done @ [p']) (map elim rest') = Some rows"
    by (simp add: Let_def p'_def elim_def)
  from find_pivot_Some [OF f] have piv: "p ! c \<noteq> 0" and p: "p \<in> set rest"
    and sub: "set rest' \<subseteq> set rest"
    by auto
  have cn: "c < n" using Suc.prems(4) by simp
  have okp: "row_ok S n p" using p Suc.prems(2) by simp
  have okp': "row_ok S n p'" unfolding p'_def using okp by (rule row_ok_scale)
  have lenp: "length p = n + n" using okp by (simp add: row_ok_def)
  have p'c: "p' ! c = 1"
    using piv lenp cn by (simp add: p'_def row_scale_def)
  have p'low: "p' ! j = 0" if "j < c" for j
  proof -
    have "p ! j = 0" using Suc.prems(3) p that by (simp add: reduced_def)
    then show ?thesis using lenp cn that by (simp add: p'_def row_scale_def)
  qed
  have okelim: "row_ok S n (elim r)" if "row_ok S n r" for r
    unfolding elim_def using that okp' by (rule row_ok_sub)
  have nth_elim: "elim r ! j = r ! j - r ! c * p' ! j" if "row_ok S n r" "j < n" for r j
    using that okp' by (simp add: elim_def row_sub_def row_ok_def)
  have ok': "row_ok S n r" if "r \<in> set (map elim done @ [p']) \<union> set (map elim rest')" for r
    using that okp' okelim sub Suc.prems(2) by auto
  have len_done: "length done = c" using Suc.prems(3) by (simp add: reduced_def)
  have red': "reduced (Suc c) (map elim done @ [p']) (map elim rest')"
    unfolding reduced_def
  proof (intro conjI allI impI ballI)
    show "length (map elim done @ [p']) = Suc c" using len_done by simp
  next
    fix i j assume ij: "i < Suc c" "j < Suc c"
    show "(map elim done @ [p']) ! i ! j = (if i = j then 1 else 0)"
    proof (cases "i < c")
      case True
      then have mem: "done ! i \<in> set done" using len_done by simp
      have okr: "row_ok S n (done ! i)" using mem Suc.prems(2) by simp
      have "(map elim done @ [p']) ! i ! j = done ! i ! j - done ! i ! c * p' ! j"
        using True len_done ij cn by (simp add: nth_append nth_elim [OF okr])
      also have "\<dots> = (if i = j then 1 else 0)"
      proof (cases "j < c")
        case True
        with \<open>i < c\<close> Suc.prems(3) show ?thesis by (simp add: reduced_def p'low)
      next
        case False
        with ij have "j = c" by simp
        with \<open>i < c\<close> show ?thesis by (simp add: p'c)
      qed
      finally show ?thesis .
    next
      case False
      with ij have "i = c" by simp
      then show ?thesis using len_done ij p'c p'low by (auto simp: nth_append less_Suc_eq)
    qed
  next
    fix r j assume r: "r \<in> set (map elim rest')" and j: "j < Suc c"
    from r obtain r0 where r0: "r0 \<in> set rest'" "r = elim r0" by auto
    then have mem: "r0 \<in> set rest" using sub by auto
    have okr: "row_ok S n r0" using mem Suc.prems(2) by simp
    have "r ! j = r0 ! j - r0 ! c * p' ! j"
      using r0 j cn by (simp add: nth_elim [OF okr])
    also have "\<dots> = 0"
    proof (cases "j < c")
      case True
      with mem Suc.prems(3) show ?thesis by (simp add: reduced_def p'low)
    next
      case False
      with j have "j = c" by simp
      then show ?thesis by (simp add: p'c)
    qed
    finally show "r ! j = 0" .
  qed
  from Suc.prems(4) have "Suc c + k = n" by simp
  from Suc.IH [OF g ok' red' this] show ?case .
qed

lemma inv_real_sound:
  assumes "inv_real S = Some M" "is_mat n n S" "i < n" "j < n"
  shows "(\<Sum>k<n. M ! i ! k * S ! k ! j) = (if i = j then 1 else 0)"
proof -
  have n: "length S = n" using assms(2) by (simp add: is_mat_iff)
  from assms(1) obtain rows where
    g: "gauss_jordan n 0 [] (map2 (@) S (eye_real n)) = Some rows" and M: "M = map (drop n) rows"
    by (auto simp: inv_real_def Let_def n split: option.splits)
  have ok: "row_ok S n r" if "r \<in> set [] \<union> set (map2 (@) S (eye_real n))" for r
  proof -
    from that obtain i where "i < n" "r = S ! i @ eye_real n ! i"
      by (auto simp: set_conv_nth eye_real_def n)
    then show ?thesis using assms(2) by (simp add: row_ok_init)
  qed
  have "reduced 0 [] (map2 (@) S (eye_real n))"
    by (simp add: reduced_def)
  from gauss_jordan_sound [OF g ok this] have red: "reduced n rows []"
    and oks: "\<forall>r\<in>set rows. row_ok S n r"
    by auto
  from red have len: "length rows = n" by (simp add: reduced_def)
  have okr: "row_ok S n (rows ! i)" using oks len assms(3) by simp
  have "(\<Sum>k<n. M ! i ! k * S ! k ! j) = (\<Sum>k<n. rows ! i ! (n + k) * S ! k ! j)"
    using okr len assms(3) by (intro sum.cong) (auto simp: M row_ok_def)
  also have "\<dots> = rows ! i ! j"
    using okr assms(4) by (simp add: row_ok_def)
  also have "\<dots> = (if i = j then 1 else 0)"
    using red assms(3,4) by (simp add: reduced_def)
  finally show ?thesis .
qed

section \<open>The covariance\<close>

lemma symmetric_sandwich:
  assumes M: "is_mat n n M" and P: "is_mat n n P" and sym: "transpose_m P = P" and n: "0 < n"
  shows "transpose_m (matmul M (matmul P (transpose_m M))) = matmul M (matmul P (transpose_m M))"
proof -
  have Mt: "is_mat n n (transpose_m M)"
    using M n by (rule is_mat_transpose)
  have PMt: "is_mat n n (matmul P (transpose_m M))"
    using P Mt n by (rule is_mat_matmul)
  have "transpose_m (matmul M (matmul P (transpose_m M))) =
          matmul (transpose_m (matmul P (transpose_m M))) (transpose_m M)"
    by (rule transpose_matmul [OF M PMt n n n])
  also have "transpose_m (matmul P (transpose_m M)) =
          matmul (transpose_m (transpose_m M)) (transpose_m P)"
    by (rule transpose_matmul [OF P Mt n n n])
  also have "transpose_m (transpose_m M) = M"
    by (rule transpose_transpose [OF M n n])
  also have "matmul (matmul M (transpose_m P)) (transpose_m M) =
          matmul M (matmul (transpose_m P) (transpose_m M))"
    using M P Mt n by (simp add: sym matmul_assoc [of n n _ n _ n])
  finally show ?thesis by (simp add: sym)
qed

lemma symmetric_madd:
  assumes "is_mat n n A" "is_mat n n B" "transpose_m A = A" "transpose_m B = B" "0 < n"
  shows "transpose_m (madd A B) = madd A B"
  using transpose_madd [of n n A B] assms by simp

lemma is_mat_noise [simp]: "is_mat 6 6 noise"
  by (simp add: noise_def is_mat_mscale)

lemma transpose_noise [simp]: "transpose_m noise = noise"
proof (rule mat_eqI [of 6 6])
  show "is_mat 6 6 (transpose_m noise)"
    by (rule is_mat_transpose) simp_all
  show "is_mat 6 6 noise" by simp
next
  fix i j :: nat assume ij: "i < 6" "j < 6"
  have "transpose_m noise ! i ! j = noise ! j ! i"
    using ij by (simp add: nth_transpose [OF is_mat_noise])
  also have "\<dots> = noise ! i ! j"
    using ij by (simp add: noise_def nth_mscale [OF is_mat_eye] nth_eye)
  finally show "transpose_m noise ! i ! j = noise ! i ! j" .
qed

lemma is_mat_trans_R [simp]: "is_mat 3 3 (trans_R \<omega> \<delta>t)"
  unfolding trans_R_def axis_hat_def
  by (intro is_mat_madd is_mat_mscale is_mat_matmul [of 3 3]) simp_all

lemma is_mat_trans_A [simp]: "is_mat 6 6 (trans_A \<omega> \<delta>t)"
  using is_mat_block [of 3 3 "trans_R \<omega> \<delta>t" 3 "mscale (eye 3) (- \<delta>t)" 3 "zeros 3 3" "eye 3"]
  by (simp add: trans_A_def is_mat_mscale)

lemma is_mat_sens_C [simp]: "is_mat 6 6 (sens_C br_mag br_sun)"
  using is_mat_block [of 3 3 "hat br_mag" 3 "zeros 3 3" 3 "hat br_sun" "zeros 3 3"]
  by (simp add: sens_C_def)

lemma is_mat_predict_P:
  assumes "is_mat 6 6 (state_P state)"
  shows "is_mat 6 6 (predict_P state \<omega> \<delta>t)"
  unfolding predict_P_def
  by (intro is_mat_madd is_mat_matmul [of 6 6] is_mat_transpose assms) simp_all

lemma symmetric_predict_P:
  assumes "is_mat 6 6 (state_P state)" "symmetric (state_P state)"
  shows "symmetric (predict_P state \<omega> \<delta>t)"
  unfolding predict_P_def symmetric_def
proof (rule symmetric_madd [of 6])
  show "is_mat 6 6 (matmul (trans_A \<omega> \<delta>t) (matmul (state_P state) (transpose_m (trans_A \<omega> \<delta>t))))"
    by (intro is_mat_matmul [of 6 6] is_mat_transpose assms) simp_all
  show "transpose_m (matmul (trans_A \<omega> \<delta>t) (matmul (state_P state) (transpose_m (trans_A \<omega> \<delta>t)))) =
        matmul (trans_A \<omega> \<delta>t) (matmul (state_P state) (transpose_m (trans_A \<omega> \<delta>t)))"
    using assms by (intro symmetric_sandwich [of 6]) (simp_all add: symmetric_def)
qed simp_all

lemma is_mat_step_S:
  assumes "is_mat 6 6 (state_P state)"
  shows "is_mat 6 6 (step_S state \<omega> \<delta>t br_mag br_sun)"
  unfolding step_S_def innov_S_def
  by (intro is_mat_madd is_mat_matmul [of 6 6] is_mat_transpose is_mat_predict_P assms) simp_all

lemma is_mat_gain:
  assumes "is_mat 6 6 P_p" "is_mat 6 6 C" "is_mat 6 6 S_inv"
  shows "is_mat 6 6 (gain P_p C S_inv)"
  unfolding gain_def
  by (intro is_mat_matmul [of 6 6] is_mat_transpose assms) simp_all

lemma is_mat_joseph:
  assumes "is_mat 6 6 L" "is_mat 6 6 C" "is_mat 6 6 P_p" "is_mat 6 6 V"
  shows "is_mat 6 6 (joseph L C P_p V)"
  unfolding joseph_def
  by (intro is_mat_madd is_mat_matmul [of 6 6] is_mat_transpose is_mat_msub assms) simp_all

lemma symmetric_joseph:
  assumes L: "is_mat 6 6 L" and C: "is_mat 6 6 C" and P: "is_mat 6 6 P_p" and V: "is_mat 6 6 V"
    and symP: "transpose_m P_p = P_p" and symV: "transpose_m V = V"
  shows "transpose_m (joseph L C P_p V) = joseph L C P_p V"
  unfolding joseph_def
proof (rule symmetric_madd [of 6])
  have e1: "is_mat 6 6 (msub (eye 6) (matmul L C))"
    by (intro is_mat_msub is_mat_matmul [of 6 6] L C) simp_all
  show "is_mat 6 6 (matmul (msub (eye 6) (matmul L C))
          (matmul P_p (transpose_m (msub (eye 6) (matmul L C)))))"
    by (intro is_mat_matmul [of 6 6] is_mat_transpose e1 P) simp_all
  show "is_mat 6 6 (matmul L (matmul V (transpose_m L)))"
    by (intro is_mat_matmul [of 6 6] is_mat_transpose L V) simp_all
  show "transpose_m (matmul (msub (eye 6) (matmul L C))
          (matmul P_p (transpose_m (msub (eye 6) (matmul L C))))) =
        matmul (msub (eye 6) (matmul L C)) (matmul P_p (transpose_m (msub (eye 6) (matmul L C))))"
    using e1 P symP by (intro symmetric_sandwich [of 6]) simp_all
  show "transpose_m (matmul L (matmul V (transpose_m L))) = matmul L (matmul V (transpose_m L))"
    using L V symV by (intro symmetric_sandwich [of 6]) simp_all
qed simp

lemma joseph_form_eq:
  assumes L: "is_mat 6 6 L" and C: "is_mat 6 6 C" and P: "is_mat 6 6 P_p" and V: "is_mat 6 6 V"
  shows "joseph L C P_p V = joseph_form L C P_p V"
proof -
  have e1: "is_mat 6 6 (msub (eye 6) (matmul L C))"
    by (intro is_mat_msub is_mat_matmul [of 6 6] L C) simp_all
  have e2: "is_mat 6 6 (transpose_m (msub (eye 6) (matmul L C)))"
    using e1 by (rule is_mat_transpose) simp
  have Lt: "is_mat 6 6 (transpose_m L)"
    using L by (rule is_mat_transpose) simp
  show ?thesis
    unfolding joseph_def joseph_form_def
    by (simp add: matmul_assoc [OF e1 P e2] matmul_assoc [OF L V Lt])
qed

lemma ex_is_mat_P: "is_mat 6 6 (state_P ex_state)"
  by (simp add: ex_state_def ex_P_def is_mat_def)

lemma ex_symmetric_P: "symmetric (state_P ex_state)"
  by (simp add: symmetric_def ex_state_def ex_P_def transpose_m_def ncols_def upt_rec)

text \<open>
  C6: for a prior state whose covariance is a symmetric 6 by 6 matrix, the covariance of
  the state that \<^verbatim>\<open>step\<close> returns is again a symmetric 6 by 6 matrix, so symmetry is
  kept from step to step. Equality of entries is equality in the model: an entry that is
  \<open>NaN\<close> has \<open>NaN\<close> as its mirror image.
\<close>

theorem step_keeps_symmetry:
  assumes shape: "is_mat 6 6 (state_P state)"
    and sym: "symmetric (state_P state)"
    and ret: "step state \<omega> \<delta>t nr_mag nr_sun br_mag br_sun = Inr s'"
  shows "is_mat 6 6 (state_P s') \<and> symmetric (state_P s')"
proof -
  from ret obtain S_inv where
    inv: "linalg_inv (step_S state \<omega> \<delta>t br_mag br_sun) = Inr S_inv" and
    s': "s' = updated state \<omega> \<delta>t nr_mag nr_sun br_mag br_sun S_inv"
    by (rule step_InrD)
  have Pp: "is_mat 6 6 (predict_P state \<omega> \<delta>t)"
    using shape by (rule is_mat_predict_P)
  have symPp: "transpose_m (predict_P state \<omega> \<delta>t) = predict_P state \<omega> \<delta>t"
    using symmetric_predict_P [OF shape sym] by (simp add: symmetric_def)
  have Si: "is_mat 6 6 S_inv"
    using inv is_mat_step_S [OF shape] by (rule linalg_inv_shape)
  have L: "is_mat 6 6 (kalman_gain state \<omega> \<delta>t br_mag br_sun S_inv)"
    unfolding kalman_gain_def using Pp is_mat_sens_C Si by (rule is_mat_gain)
  have P': "state_P s' = joseph (kalman_gain state \<omega> \<delta>t br_mag br_sun S_inv)
              (sens_C br_mag br_sun) (predict_P state \<omega> \<delta>t) noise"
    by (simp add: s' updated_def)
  have "is_mat 6 6 (state_P s')"
    unfolding P' using L is_mat_sens_C Pp is_mat_noise by (rule is_mat_joseph)
  moreover have "symmetric (state_P s')"
    unfolding P' symmetric_def
    using L is_mat_sens_C Pp is_mat_noise symPp transpose_noise by (rule symmetric_joseph)
  ultimately show ?thesis ..
qed

theorem step_keeps_symmetry_witness:
  "is_mat 6 6 (state_P ex_state) \<and> symmetric (state_P ex_state) \<and>
   step ex_state ex_\<omega> (Fin 0) ex_x ex_y ex_x ex_z =
     Inr (updated ex_state ex_\<omega> (Fin 0) ex_x ex_y ex_x ex_z ex_S_inv) \<and>
   is_mat 6 6 (state_P (updated ex_state ex_\<omega> (Fin 0) ex_x ex_y ex_x ex_z ex_S_inv)) \<and>
   symmetric (state_P (updated ex_state ex_\<omega> (Fin 0) ex_x ex_y ex_x ex_z ex_S_inv))"
  using step_keeps_symmetry [OF ex_is_mat_P ex_symmetric_P ex_step, of ex_x ex_y]
    ex_is_mat_P ex_symmetric_P ex_step [of ex_x ex_y]
  by simp

text \<open>
  C7: whenever \<^verbatim>\<open>step\<close> returns a state for a 6 by 6 prior covariance, the covariance of
  that state is the Joseph form \<open>(I - L C) P\<^sub>p (I - L C)\<^sup>T + L V L\<^sup>T\<close> of the gain \<open>L\<close>, the
  sensitivity \<open>C\<close>, the propagated covariance \<open>P\<^sub>p\<close> and the measurement noise \<open>V\<close>.
\<close>

theorem step_covariance_is_joseph_form:
  assumes shape: "is_mat 6 6 (state_P state)"
    and ret: "step state \<omega> \<delta>t nr_mag nr_sun br_mag br_sun = Inr s'"
  shows "\<exists>S_inv. linalg_inv (step_S state \<omega> \<delta>t br_mag br_sun) = Inr S_inv \<and>
           state_P s' = joseph_form (kalman_gain state \<omega> \<delta>t br_mag br_sun S_inv)
                          (sens_C br_mag br_sun) (predict_P state \<omega> \<delta>t) noise"
proof -
  from ret obtain S_inv where
    inv: "linalg_inv (step_S state \<omega> \<delta>t br_mag br_sun) = Inr S_inv" and
    s': "s' = updated state \<omega> \<delta>t nr_mag nr_sun br_mag br_sun S_inv"
    by (rule step_InrD)
  have Pp: "is_mat 6 6 (predict_P state \<omega> \<delta>t)"
    using shape by (rule is_mat_predict_P)
  have Si: "is_mat 6 6 S_inv"
    using inv is_mat_step_S [OF shape] by (rule linalg_inv_shape)
  have L: "is_mat 6 6 (kalman_gain state \<omega> \<delta>t br_mag br_sun S_inv)"
    unfolding kalman_gain_def using Pp is_mat_sens_C Si by (rule is_mat_gain)
  have "state_P s' = joseph (kalman_gain state \<omega> \<delta>t br_mag br_sun S_inv)
          (sens_C br_mag br_sun) (predict_P state \<omega> \<delta>t) noise"
    by (simp add: s' updated_def)
  also have "\<dots> = joseph_form (kalman_gain state \<omega> \<delta>t br_mag br_sun S_inv)
          (sens_C br_mag br_sun) (predict_P state \<omega> \<delta>t) noise"
    using L is_mat_sens_C Pp is_mat_noise by (rule joseph_form_eq)
  finally show ?thesis using inv by blast
qed

theorem step_covariance_is_joseph_form_witness:
  "is_mat 6 6 (state_P ex_state) \<and>
   step ex_state ex_\<omega> (Fin 0) ex_x ex_y ex_x ex_z =
     Inr (updated ex_state ex_\<omega> (Fin 0) ex_x ex_y ex_x ex_z ex_S_inv) \<and>
   state_P (updated ex_state ex_\<omega> (Fin 0) ex_x ex_y ex_x ex_z ex_S_inv) =
     joseph_form (kalman_gain ex_state ex_\<omega> (Fin 0) ex_x ex_z ex_S_inv)
       (sens_C ex_x ex_z) (predict_P ex_state ex_\<omega> (Fin 0)) noise"
  using step_covariance_is_joseph_form [OF ex_is_mat_P ex_step, of ex_x ex_y]
    ex_is_mat_P ex_step [of ex_x ex_y]
  by (auto simp: ex_inv)

section \<open>The matrices of the prediction and of the measurement\<close>

text \<open>
  C8: the sensitivity matrix \<open>C\<close> that \<^verbatim>\<open>step\<close> builds from its parameters \<^verbatim>\<open>br_mag\<close> and
  \<^verbatim>\<open>br_sun\<close>, the measured body-frame vectors, is a 6 by 6 matrix; its first three columns
  are the hat matrix of \<^verbatim>\<open>br_mag\<close> above the hat matrix of \<^verbatim>\<open>br_sun\<close>, its last three
  columns are zero; and \<^verbatim>\<open>step\<close> is the inversion of \<open>C P\<^sub>p C\<^sup>T + V\<close> for this \<open>C\<close> followed by the
  update with this \<open>C\<close>.
\<close>

theorem step_sensitivity_blocks:
  "is_mat 6 6 (sens_C br_mag br_sun) \<and>
   map (take 3) (sens_C br_mag br_sun) = hat br_mag @ hat br_sun \<and>
   map (drop 3) (sens_C br_mag br_sun) = zeros 6 3 \<and>
   step state \<omega> \<delta>t nr_mag nr_sun br_mag br_sun =
     (case linalg_inv (innov_S (predict_P state \<omega> \<delta>t) (sens_C br_mag br_sun)) of
        Inl e \<Rightarrow> Inl e
      | Inr S_inv \<Rightarrow>
          Inr (update (predict_q state \<omega> \<delta>t) (predict_P state \<omega> \<delta>t)
                 (innovation (predict_q state \<omega> \<delta>t) nr_mag nr_sun br_mag br_sun)
                 (sens_C br_mag br_sun) S_inv))"
proof -
  have "map (take 3) (sens_C br_mag br_sun) = hat br_mag @ hat br_sun"
    by (simp add: sens_C_def block_2x2 hat_def zeros_def upt_rec)
  moreover have "map (drop 3) (sens_C br_mag br_sun) = zeros 6 3"
    by (simp add: sens_C_def block_2x2 hat_def zeros_def upt_rec)
  moreover have "step state \<omega> \<delta>t nr_mag nr_sun br_mag br_sun =
     (case linalg_inv (innov_S (predict_P state \<omega> \<delta>t) (sens_C br_mag br_sun)) of
        Inl e \<Rightarrow> Inl e
      | Inr S_inv \<Rightarrow>
          Inr (update (predict_q state \<omega> \<delta>t) (predict_P state \<omega> \<delta>t)
                 (innovation (predict_q state \<omega> \<delta>t) nr_mag nr_sun br_mag br_sun)
                 (sens_C br_mag br_sun) S_inv))"
    by (simp add: step_eq step_S_def updated_eq split: sum.split)
  ultimately show ?thesis by simp
qed

lemma trans_A_eq:
  "trans_A \<omega> \<delta>t =
     transition (rodrigues (hat (vdiv (vneg (vsub \<omega> \<beta>)) (linalg_norm (vneg (vsub \<omega> \<beta>)))))
                           (linalg_norm (vneg (vsub \<omega> \<beta>)) * \<delta>t)) \<delta>t"
  by (simp add: trans_A_def trans_R_def axis_hat_def rate_v_def transition_def rodrigues_def)

lemma predict_P_eq:
  assumes "is_mat 6 6 (state_P state)"
  shows "predict_P state \<omega> \<delta>t = propagated (trans_A \<omega> \<delta>t) (state_P state) noise"
proof -
  have "is_mat 6 6 (transpose_m (trans_A \<omega> \<delta>t))"
    by (rule is_mat_transpose) simp_all
  from matmul_assoc [OF is_mat_trans_A assms this] show ?thesis
    by (simp add: predict_P_def propagated_def)
qed

text \<open>
  C2, amended: \<^verbatim>\<open>step\<close> on a state with a 6 by 6 covariance \<open>P\<close> is the update applied to the
  propagated covariance \<open>A P A\<^sup>T + W\<close>, where \<open>W\<close> is \<open>10\<^sup>-\<^sup>6 I\<close>, \<open>A = [[R, -\<delta>t I], [0, I]]\<close> and
  \<open>R = I + K sin(\<parallel>v\<parallel> \<delta>t) + K\<^sup>2 (1 - cos(\<parallel>v\<parallel> \<delta>t))\<close> with \<open>K\<close> the hat matrix of the unit vector
  \<open>v / \<parallel>v\<parallel>\<close>, for the vector \<open>v\<close> that line 69 forms.
\<close>

theorem step_propagates_covariance:
  assumes "is_mat 6 6 (state_P state)"
    and "v = vneg (vsub \<omega> \<beta>)"
    and "A = transition (rodrigues (hat (vdiv v (linalg_norm v))) (linalg_norm v * \<delta>t)) \<delta>t"
    and "P_p = propagated A (state_P state) (mscale (eye 6) (Fin (1 / 1000000)))"
  shows "step state \<omega> \<delta>t nr_mag nr_sun br_mag br_sun =
     (case linalg_inv (innov_S P_p (sens_C br_mag br_sun)) of
        Inl e \<Rightarrow> Inl e
      | Inr S_inv \<Rightarrow>
          Inr (update (predict_q state \<omega> \<delta>t) P_p
                 (innovation (predict_q state \<omega> \<delta>t) nr_mag nr_sun br_mag br_sun)
                 (sens_C br_mag br_sun) S_inv))"
proof -
  have "P_p = predict_P state \<omega> \<delta>t"
    using assms by (simp add: predict_P_eq trans_A_eq noise_def)
  then show ?thesis
    by (simp add: step_eq step_S_def updated_eq split: sum.split)
qed

lemma sin_one_nonzero: "sin (1::real) \<noteq> 0"
  using sin_gt_zero_02 [of "1::real"] by simp

text \<open>
  C2 as stated fails: for a prior bias of zero, the rate \<open>[0, 0, 2]\<close> and \<open>\<delta>t = 1/2\<close> the
  matrix that \<^verbatim>\<open>step\<close> builds has \<open>sin 1\<close> in row 0, column 1, and the matrix of the claim,
  built on the hat matrix of \<open>v\<close> itself, has \<open>2 sin 1\<close> there.
\<close>

theorem transition_differs_from_claim:
  "trans_A [Fin 0, Fin 0, Fin 2] (Fin (1 / 2)) \<noteq>
     claimed_A [Fin 0, Fin 0, Fin 0] [Fin 0, Fin 0, Fin 2] (Fin (1 / 2))"
proof -
  have "trans_A [Fin 0, Fin 0, Fin 2] (Fin (1 / 2)) ! 0 ! 1 = Fin (sin 1)"
    by (simp add: trans_A_def trans_R_def axis_hat_def rate_v_def array_defs)
  moreover have "claimed_A [Fin 0, Fin 0, Fin 0] [Fin 0, Fin 0, Fin 2] (Fin (1 / 2)) ! 0 ! 1 =
      Fin (2 * sin 1)"
    by (simp add: claimed_A_def transition_def rodrigues_def array_defs)
  ultimately show ?thesis
    using sin_one_nonzero by auto
qed

theorem step_propagates_covariance_witness:
  "is_mat 6 6 (state_P ex_state) \<and>
   step ex_state ex_\<omega> (Fin 0) ex_x ex_y ex_x ex_z =
     (case linalg_inv (innov_S
        (propagated
           (transition
              (rodrigues (hat (vdiv (vneg (vsub ex_\<omega> \<beta>)) (linalg_norm (vneg (vsub ex_\<omega> \<beta>)))))
                         (linalg_norm (vneg (vsub ex_\<omega> \<beta>)) * Fin 0))
              (Fin 0))
           (state_P ex_state) (mscale (eye 6) (Fin (1 / 1000000))))
        (sens_C ex_x ex_z)) of
        Inl e \<Rightarrow> Inl e
      | Inr S_inv \<Rightarrow>
          Inr (update (predict_q ex_state ex_\<omega> (Fin 0))
                 (propagated
                    (transition
                       (rodrigues (hat (vdiv (vneg (vsub ex_\<omega> \<beta>)) (linalg_norm (vneg (vsub ex_\<omega> \<beta>)))))
                                  (linalg_norm (vneg (vsub ex_\<omega> \<beta>)) * Fin 0))
                       (Fin 0))
                    (state_P ex_state) (mscale (eye 6) (Fin (1 / 1000000))))
                 (innovation (predict_q ex_state ex_\<omega> (Fin 0)) ex_x ex_y ex_x ex_z)
                 (sens_C ex_x ex_z) S_inv))"
  using ex_is_mat_P step_propagates_covariance [OF ex_is_mat_P refl refl refl]
  by (rule conjI)

section \<open>Degenerate rotations\<close>

lemma fin_vec3:
  assumes "fin_vec v" "length v = 3"
  obtains a b c where "v = [Fin a, Fin b, Fin c]"
proof -
  from assms(2) obtain x y z where v: "v = [x, y, z]"
    by (auto simp: numeral_3_eq_3 length_Suc_conv)
  with assms(1) obtain a b c where "x = Fin a" "y = Fin b" "z = Fin c"
    by (cases x; cases y; cases z) (auto simp: fin_vec_def)
  with v that show ?thesis by blast
qed

lemma fin_vec4:
  assumes "fin_vec v" "length v = 4"
  obtains a b c d where "v = [Fin a, Fin b, Fin c, Fin d]"
proof -
  from assms(2) obtain x y z w where v: "v = [x, y, z, w]"
    by (auto simp: numeral_eq_Suc length_Suc_conv)
  with assms(1) obtain a b c d where "x = Fin a" "y = Fin b" "z = Fin c" "w = Fin d"
    by (cases x; cases y; cases z; cases w) (auto simp: fin_vec_def)
  with v that show ?thesis by blast
qed

text \<open>
  C9: for a quaternion, a bias and a rate with finite entries, \<^verbatim>\<open>propagate_state\<close> returns
  the quaternion as it is when the rate equals the bias, and when the time step is zero.
\<close>

theorem propagate_state_identity:
  assumes q: "fin_vec q" "length q = 4"
    and \<omega>: "fin_vec \<omega>" "length \<omega> = 3"
    and b: "fin_vec b" "length b = 3"
    and deg: "\<omega> = b \<or> \<delta>t = Fin 0"
  shows "propagate_state q b \<omega> \<delta>t = q"
proof -
  from q obtain q0 q1 q2 q3 where qq: "q = [Fin q0, Fin q1, Fin q2, Fin q3]"
    by (rule fin_vec4)
  from \<omega> obtain w0 w1 w2 where ww: "\<omega> = [Fin w0, Fin w1, Fin w2]"
    by (rule fin_vec3)
  from b obtain b0 b1 b2 where bb: "b = [Fin b0, Fin b1, Fin b2]"
    by (rule fin_vec3)
  from deg show ?thesis
  proof
    assume "\<omega> = b"
    then show ?thesis
      by (simp add: propagate_state_def ww bb array_defs)
  next
    assume "\<delta>t = Fin 0"
    then show ?thesis
      by (simp add: propagate_state_def qq ww bb array_defs)
  qed
qed

theorem propagate_state_identity_witness:
  "fin_vec (state_q ex_state) \<and> length (state_q ex_state) = 4 \<and>
   fin_vec ex_\<omega> \<and> length ex_\<omega> = 3 \<and>
   fin_vec (state_\<beta> ex_state) \<and> length (state_\<beta> ex_state) = 3 \<and>
   propagate_state (state_q ex_state) (state_\<beta> ex_state) ex_\<omega> (Fin 0) = state_q ex_state \<and>
   propagate_state (state_q ex_state) ex_\<omega> ex_\<omega> (Fin 1) = state_q ex_state"
proof -
  have f: "fin_vec (state_q ex_state)" "length (state_q ex_state) = 4"
    "fin_vec ex_\<omega>" "length ex_\<omega> = 3"
    "fin_vec (state_\<beta> ex_state)" "length (state_\<beta> ex_state) = 3"
    by (simp_all add: ex_defs fin_vec_def)
  have "ex_\<omega> = state_\<beta> ex_state \<or> Fin 0 = Fin 0" "ex_\<omega> = ex_\<omega> \<or> Fin 1 = Fin 0"
    by simp_all
  from propagate_state_identity [OF f(1-4) f(5,6) this(1)]
    propagate_state_identity [OF f(1-4) f(3,4) this(2)] f
  show ?thesis by simp
qed

lemma update_q_zero_correction:
  "update_q [Fin 1, Fin 0, Fin 0, Fin 0] [Fin 0, Fin 0, Fin 0] = [NaN, NaN, NaN, NaN]"
  by (simp add: update_q_def increment_def array_defs)

lemma ex_updated_q_still:
  "state_q (updated ex_state ex_\<omega> (Fin 0) ex_x ex_z ex_x ex_z ex_S_inv) = [NaN, NaN, NaN, NaN]"
  unfolding updated_def ex_correction_still ex_predict_q
  by (simp add: update_q_zero_correction) (simp add: normalize_def array_defs)

text \<open>
  C3: the measured vectors agree with the predicted attitude \<open>[1, 0, 0, 0]\<close>, so the
  innovation and the correction are zero and the angle \<open>\<theta>\<close> of the correction is 0. The
  update divides the correction by \<open>\<theta>\<close>: the quaternion of the returned state is \<open>NaN\<close>
  in all four components and not the predicted attitude.
\<close>

theorem step_zero_correction_loses_attitude:
  "step ex_state ex_\<omega> (Fin 0) ex_x ex_z ex_x ex_z =
     Inr (updated ex_state ex_\<omega> (Fin 0) ex_x ex_z ex_x ex_z ex_S_inv) \<and>
   predict_q ex_state ex_\<omega> (Fin 0) = [Fin 1, Fin 0, Fin 0, Fin 0] \<and>
   linalg_norm (take 3 (correction ex_state ex_\<omega> (Fin 0) ex_x ex_z ex_x ex_z ex_S_inv)) = Fin 0 \<and>
   state_q (updated ex_state ex_\<omega> (Fin 0) ex_x ex_z ex_x ex_z ex_S_inv) =
     [NaN, NaN, NaN, NaN]"
  by (simp add: ex_step ex_predict_q ex_correction_still ex_updated_q_still linalg_norm_def)

text \<open>
  The same division is in the transition matrix: at a gyro reading of exactly zero the
  axis \<open>v / \<parallel>v\<parallel>\<close> is \<open>0 / 0\<close>, and the propagated covariance is not finite.
\<close>

lemma zero_rate_axis:
  "axis_hat [Fin 0, Fin 0, Fin 0] = [[Fin 0, NaN, NaN], [NaN, Fin 0, NaN], [NaN, NaN, Fin 0]]"
  by (simp add: axis_hat_def rate_v_def array_defs)

lemma zero_rate_covariance_not_finite:
  "\<not> fin_mat (predict_P (ex_state\<lparr>state_\<beta> := [Fin 0, Fin 0, Fin 0]\<rparr>)
                 [Fin 0, Fin 0, Fin 0] (Fin 1))"
  by (simp add: fin_mat_def predict_P_def noise_def trans_A_def trans_R_def zero_rate_axis
      ex_defs array_defs)

section \<open>The norm of the returned quaternion\<close>

text \<open>
  The renormalisation gives a quaternion of norm 1 whenever the quaternion it is applied
  to has finite entries and a norm other than zero.
\<close>

lemma fin_vec_map_Fin: "fin_vec v \<longleftrightarrow> v = map Fin (map the_fin v)"
proof (induction v)
  case Nil
  show ?case by (simp add: fin_vec_def)
next
  case (Cons x v)
  then show ?case by (cases x) (auto simp: fin_vec_def)
qed

lemma sum_list_Fin: "sum_list (map (\<lambda>x. Fin (f x)) xs) = Fin (sum_list (map f xs))"
  by (induction xs) (simp_all add: zero_num_def)

lemma linalg_norm_Fin:
  "linalg_norm (map Fin xs) = Fin (sqrt (sum_list (map (\<lambda>x. x * x) xs)))"
  by (simp add: linalg_norm_def o_def sum_list_Fin)

lemma sum_squares_scaled:
  fixes n :: real
  shows "sum_list (map (\<lambda>x. x * x) (map (\<lambda>x. x / n) xs)) =
         sum_list (map (\<lambda>x. x * x) xs) / (n * n)"
  by (induction xs) (simp_all add: add_divide_distrib)

lemma normalize_unit:
  assumes "fin_vec q_u" "linalg_norm q_u \<noteq> Fin 0"
  shows "linalg_norm (normalize q_u) = Fin 1"
proof -
  define xs where "xs = map the_fin q_u"
  define s where "s = sum_list (map (\<lambda>x. x * x) xs)"
  define ys where "ys = map (\<lambda>x. x / sqrt s) xs"
  have q: "q_u = map Fin xs"
    using assms(1) fin_vec_map_Fin [of q_u] by (simp add: xs_def)
  have n: "linalg_norm (map Fin xs) = Fin (sqrt s)"
    unfolding s_def by (rule linalg_norm_Fin)
  with assms(2) have s0: "sqrt s \<noteq> 0" by (simp add: q)
  have s_nonneg: "0 \<le> s"
    unfolding s_def by (rule sum_list_nonneg) auto
  have "normalize q_u = map (\<lambda>x. fdiv x (Fin (sqrt s))) (map Fin xs)"
    unfolding normalize_def vdiv_def q n ..
  also have "\<dots> = map Fin ys"
    using s0 by (simp add: ys_def)
  finally have "linalg_norm (normalize q_u) = Fin (sqrt (sum_list (map (\<lambda>x. x * x) ys)))"
    by (simp only: linalg_norm_Fin)
  also have "sum_list (map (\<lambda>x. x * x) ys) = s / (sqrt s * sqrt s)"
    unfolding ys_def s_def by (rule sum_squares_scaled)
  also have "sqrt s * sqrt s = s"
    using s_nonneg by simp
  also have "s / s = 1"
    using s0 by simp
  finally show ?thesis by simp
qed

text \<open>
  C5: at the input of C3 the renormalisation divides a quaternion of \<open>NaN\<close>s by its norm;
  the norm of the returned quaternion is \<open>NaN\<close> and not 1.
\<close>

theorem step_zero_correction_norm:
  "step ex_state ex_\<omega> (Fin 0) ex_x ex_z ex_x ex_z =
     Inr (updated ex_state ex_\<omega> (Fin 0) ex_x ex_z ex_x ex_z ex_S_inv) \<and>
   linalg_norm (state_q (updated ex_state ex_\<omega> (Fin 0) ex_x ex_z ex_x ex_z ex_S_inv)) = NaN \<and>
   linalg_norm (state_q (updated ex_state ex_\<omega> (Fin 0) ex_x ex_z ex_x ex_z ex_S_inv)) \<noteq> Fin 1"
  by (simp add: ex_step ex_updated_q_still linalg_norm_def)

section \<open>A singular innovation covariance\<close>

lemma sum_Fin: "(\<Sum>k<(m::nat). Fin (f k)) = Fin (\<Sum>k<m. f k)"
  by (induction m) (simp_all add: zero_num_def)

lemma fin_mat_nth:
  assumes "fin_mat S" "is_mat n m S" "i < n" "j < m"
  shows "S ! i ! j = Fin (the_fin (S ! i ! j))"
proof -
  have "is_fin (S ! i ! j)"
    using assms by (simp add: fin_mat_def is_mat_iff list_all_length)
  then show ?thesis by (cases "S ! i ! j") simp_all
qed

lemma linalg_inv_sound:
  assumes inv: "linalg_inv S = Inr M" and fin: "fin_mat S" and shape: "is_mat 6 6 S"
  shows "is_mat 6 6 M \<and> fin_mat M \<and> matmul M S = eye 6"
proof -
  define R where "R = map (map the_fin) S"
  from inv fin obtain M0 where M0: "inv_real R = Some M0" and M: "M = map (map Fin) M0"
    by (auto simp: linalg_inv_def R_def split: option.splits)
  have R: "is_mat 6 6 R" unfolding R_def using shape by (rule is_mat_map_map)
  have M0s: "is_mat 6 6 M0" using M0 R by (rule inv_real_shape)
  have Ms: "is_mat 6 6 M" unfolding M using M0s by (rule is_mat_map_map)
  have Mf: "fin_mat M" by (simp add: M fin_mat_def list_all_iff)
  have "matmul M S = eye 6"
  proof (rule mat_eqI [of 6 6])
    show "is_mat 6 6 (matmul M S)" using Ms shape by (rule is_mat_matmul) simp
    show "is_mat 6 6 (eye 6)" by simp
  next
    fix i j :: nat assume ij: "i < 6" "j < 6"
    have "matmul M S ! i ! j = (\<Sum>k<6. M ! i ! k * S ! k ! j)"
      using Ms shape ij by (simp add: nth_matmul [of 6 6 _ 6])
    also have "\<dots> = (\<Sum>k<6. Fin (M0 ! i ! k * R ! k ! j))"
    proof (rule sum.cong)
      fix k :: nat assume "k \<in> {..<6}"
      then have k: "k < 6" by simp
      have "M ! i ! k = Fin (M0 ! i ! k)"
        using M0s ij k by (simp add: M is_mat_iff)
      moreover have "S ! k ! j = Fin (R ! k ! j)"
        using fin_mat_nth [OF fin shape k ij(2)] shape k ij by (simp add: R_def is_mat_iff)
      ultimately show "M ! i ! k * S ! k ! j = Fin (M0 ! i ! k * R ! k ! j)" by simp
    qed simp
    also have "\<dots> = Fin (\<Sum>k<6. M0 ! i ! k * R ! k ! j)"
      by (rule sum_Fin)
    also have "\<dots> = Fin (if i = j then 1 else 0)"
      using inv_real_sound [OF M0 R ij] by simp
    also have "\<dots> = eye 6 ! i ! j"
      using ij by (simp add: nth_eye zero_num_def one_num_def)
    finally show "matmul M S ! i ! j = eye 6 ! i ! j" .
  qed
  with Ms Mf show ?thesis by simp
qed

lemma zero_or_nan_sum:
  fixes m :: nat
  assumes "\<And>k. k < m \<Longrightarrow> f k = Fin 0 \<or> f k = NaN"
  shows "(\<Sum>k<m. f k) = Fin 0 \<or> (\<Sum>k<m. f k) = NaN"
  using assms
proof (induction m)
  case 0
  show ?case by (simp add: zero_num_def)
next
  case (Suc m)
  then have "(\<Sum>k<m. f k) = Fin 0 \<or> (\<Sum>k<m. f k) = NaN" "f m = Fin 0 \<or> f m = NaN"
    by auto
  then show ?case by auto
qed

lemma zero_times: "Fin 0 * x = Fin 0 \<or> Fin 0 * x = NaN"
  by (cases x) simp_all

lemma times_zero: "x * Fin 0 = Fin 0 \<or> x * Fin 0 = NaN"
  by (cases x) simp_all

lemma nth_zeros: "i < n \<Longrightarrow> j < m \<Longrightarrow> zeros n m ! i ! j = Fin 0"
  by (simp add: zeros_def zero_num_def)

lemma innov_S_zero_sensitivity:
  assumes P: "is_mat 6 6 P_p" and fin: "fin_mat (innov_S P_p (zeros 6 6))"
  shows "innov_S P_p (zeros 6 6) = noise"
proof (rule mat_eqI [of 6 6])
  have X: "is_mat 6 6 (matmul P_p (transpose_m (zeros 6 6)))"
    by (intro is_mat_matmul [of 6 6] is_mat_transpose P) simp_all
  have CX: "is_mat 6 6 (matmul (zeros 6 6) (matmul P_p (transpose_m (zeros 6 6))))"
    by (intro is_mat_matmul [of 6 6] X) simp_all
  show S: "is_mat 6 6 (innov_S P_p (zeros 6 6))"
    unfolding innov_S_def using CX by (intro is_mat_madd) simp_all
  show "is_mat 6 6 noise" by simp
  fix i j :: nat assume ij: "i < 6" "j < 6"
  define t where "t = (\<Sum>k<6. zeros 6 6 ! i ! k * matmul P_p (transpose_m (zeros 6 6)) ! k ! j)"
  have eq: "innov_S P_p (zeros 6 6) ! i ! j = t + noise ! i ! j"
    unfolding innov_S_def t_def using ij CX X
    by (simp add: nth_madd [of 6 6] nth_matmul [of 6 6 _ 6])
  have "t = Fin 0 \<or> t = NaN"
    unfolding t_def using ij
    by (intro zero_or_nan_sum) (simp add: nth_zeros zero_times)
  moreover have "is_fin (t + noise ! i ! j)"
    using fin_mat_nth [OF fin S ij] eq by (metis is_fin.simps(1))
  ultimately have "t = Fin 0" by auto
  then show "innov_S P_p (zeros 6 6) ! i ! j = noise ! i ! j"
    using eq add_0 [of "noise ! i ! j"] by (simp add: zero_num_def)
qed

lemma linalg_inv_noise: "linalg_inv noise = Inr (mscale (eye 6) (Fin 1000000))"
  by (simp add: linalg_inv_def fin_mat_def inv_real_def eye_real_def row_scale_def row_sub_def
      noise_def array_defs)

lemma sens_C_zero: "sens_C ex_0 ex_0 = zeros 6 6"
  by (simp add: sens_C_def ex_0_def array_defs)

text \<open>
  C4, amended: for a 6 by 6 prior covariance, when the innovation covariance \<open>S\<close> has finite
  entries and is not invertible, \<^verbatim>\<open>step\<close> ends with the error of \<^verbatim>\<open>linalg.inv\<close> and returns
  no state. A sensitivity matrix \<open>C\<close> of zeros is not such a case: \<open>S\<close> is then the noise
  covariance \<open>V = 10\<^sup>-\<^sup>6 I\<close>, or holds \<open>NaN\<close>, and \<^verbatim>\<open>step\<close> returns a state.
\<close>

theorem step_raises_on_singular:
  assumes shape: "is_mat 6 6 (state_P state)"
  shows "(fin_mat (step_S state \<omega> \<delta>t br_mag br_sun) \<and>
          \<not> invertible (step_S state \<omega> \<delta>t br_mag br_sun) \<longrightarrow>
            step state \<omega> \<delta>t nr_mag nr_sun br_mag br_sun = Inl LinAlgError) \<and>
         (sens_C br_mag br_sun = zeros 6 6 \<longrightarrow>
            (\<exists>s'. step state \<omega> \<delta>t nr_mag nr_sun br_mag br_sun = Inr s'))"
proof (intro conjI impI)
  assume a: "fin_mat (step_S state \<omega> \<delta>t br_mag br_sun) \<and>
             \<not> invertible (step_S state \<omega> \<delta>t br_mag br_sun)"
  have "linalg_inv (step_S state \<omega> \<delta>t br_mag br_sun) = Inl LinAlgError"
  proof (cases "linalg_inv (step_S state \<omega> \<delta>t br_mag br_sun)")
    case (Inl e)
    then show ?thesis by (cases e) simp
  next
    case (Inr M)
    from linalg_inv_sound [OF Inr _ is_mat_step_S [OF shape]] a
    have "invertible (step_S state \<omega> \<delta>t br_mag br_sun)"
      unfolding invertible_def by blast
    with a show ?thesis by simp
  qed
  then show "step state \<omega> \<delta>t nr_mag nr_sun br_mag br_sun = Inl LinAlgError"
    by (rule step_raises)
next
  assume C: "sens_C br_mag br_sun = zeros 6 6"
  have "\<exists>S_inv. linalg_inv (step_S state \<omega> \<delta>t br_mag br_sun) = Inr S_inv"
  proof (cases "fin_mat (step_S state \<omega> \<delta>t br_mag br_sun)")
    case True
    then have "step_S state \<omega> \<delta>t br_mag br_sun = noise"
      unfolding step_S_def C using is_mat_predict_P [OF shape]
      by (intro innov_S_zero_sensitivity)
    then show ?thesis by (simp add: linalg_inv_noise)
  next
    case False
    then show ?thesis by (simp add: linalg_inv_def)
  qed
  then show "\<exists>s'. step state \<omega> \<delta>t nr_mag nr_sun br_mag br_sun = Inr s'"
    by (auto simp: step_eq)
qed

lemma sing_is_mat_P: "is_mat 6 6 (state_P sing_state)"
  by (simp add: sing_state_def is_mat_mscale)

lemma sing_step_S: "step_S sing_state ex_\<omega> (Fin 0) ex_x ex_0 = sing_S"
  unfolding step_S_def predict_P_def ex_trans_A
  by (simp add: innov_S_def sens_C_def noise_def sing_state_def sing_S_def ex_0_def ex_defs array_defs)

lemma sing_not_invertible: "\<not> invertible sing_S"
proof
  assume "invertible sing_S"
  then obtain M where M: "is_mat 6 6 M" and eq: "matmul M sing_S = eye 6"
    by (auto simp: invertible_def)
  have S: "is_mat 6 6 sing_S" by (simp add: sing_S_def is_mat_def)
  have col: "sing_S ! k ! Suc 0 = Fin 0" if "k < 6" for k
  proof -
    from that have "k = 0 \<or> k = 1 \<or> k = 2 \<or> k = 3 \<or> k = 4 \<or> k = 5" by auto
    then show ?thesis by (auto simp: sing_S_def)
  qed
  have "matmul M sing_S ! 1 ! 1 = (\<Sum>k<6. M ! 1 ! k * sing_S ! k ! 1)"
    using M S by (simp add: nth_matmul [of 6 6 _ 6])
  moreover have "(\<Sum>k<6. M ! 1 ! k * sing_S ! k ! 1) = Fin 0 \<or>
                 (\<Sum>k<6. M ! 1 ! k * sing_S ! k ! 1) = NaN"
    by (intro zero_or_nan_sum) (simp add: col times_zero)
  moreover have "eye 6 ! 1 ! 1 = Fin 1"
    by (simp add: nth_eye one_num_def)
  ultimately show False using eq by auto
qed

theorem step_raises_on_singular_witness:
  "is_mat 6 6 (state_P sing_state) \<and>
   fin_mat (step_S sing_state ex_\<omega> (Fin 0) ex_x ex_0) \<and>
   \<not> invertible (step_S sing_state ex_\<omega> (Fin 0) ex_x ex_0) \<and>
   step sing_state ex_\<omega> (Fin 0) ex_x ex_y ex_x ex_0 = Inl LinAlgError \<and>
   is_mat 6 6 (state_P ex_state) \<and>
   sens_C ex_0 ex_0 = zeros 6 6 \<and>
   (\<exists>s'. step ex_state ex_\<omega> (Fin 0) ex_x ex_y ex_0 ex_0 = Inr s')"
proof -
  have f: "fin_mat (step_S sing_state ex_\<omega> (Fin 0) ex_x ex_0)"
    by (simp add: sing_step_S sing_S_def fin_mat_def)
  have n: "\<not> invertible (step_S sing_state ex_\<omega> (Fin 0) ex_x ex_0)"
    by (simp add: sing_step_S sing_not_invertible)
  from step_raises_on_singular [OF sing_is_mat_P, of ex_\<omega> "Fin 0" ex_x ex_0 ex_x ex_y]
    step_raises_on_singular [OF ex_is_mat_P, of ex_\<omega> "Fin 0" ex_0 ex_0 ex_x ex_y]
    f n sing_is_mat_P ex_is_mat_P sens_C_zero
  show ?thesis by simp
qed

lemma ex_step_S_zero: "step_S ex_state ex_\<omega> (Fin 0) ex_0 ex_0 = noise"
  unfolding step_S_def ex_predict_P sens_C_zero
  by (simp add: innov_S_def noise_def ex_P_p_def array_defs)

text \<open>
  C4 as stated fails: with both measured vectors zero, \<open>C\<close> is the zero matrix, \<open>S\<close> is
  \<open>10\<^sup>-\<^sup>6 I\<close> with inverse \<open>10\<^sup>6 I\<close>, and \<^verbatim>\<open>step\<close> returns a state instead of failing.
\<close>

theorem zero_sensitivity_returns:
  "sens_C ex_0 ex_0 = zeros 6 6 \<and>
   step_S ex_state ex_\<omega> (Fin 0) ex_0 ex_0 = noise \<and>
   linalg_inv noise = Inr (mscale (eye 6) (Fin 1000000)) \<and>
   step ex_state ex_\<omega> (Fin 0) ex_x ex_y ex_0 ex_0 =
     Inr (updated ex_state ex_\<omega> (Fin 0) ex_x ex_y ex_0 ex_0 (mscale (eye 6) (Fin 1000000))) \<and>
   step ex_state ex_\<omega> (Fin 0) ex_x ex_y ex_0 ex_0 \<noteq> Inl LinAlgError"
  by (simp add: sens_C_zero ex_step_S_zero linalg_inv_noise step_eq)

end
